theory Spec2Isabelle
  imports Main "HOL-Library.Sublist" "HOL-Library.Char_ord" "HOL-Library.List_Lexorder"
begin

section \<open>Python string operations used by the program\<close>

text \<open>
  Strings are \<^typ>\<open>string\<close>. The three characters the program names by escape
  sequences are written by their codes: the backslash, carriage return and line feed.
\<close>

definition backslash :: char where
  "backslash = CHR 0x5C"

definition CR :: char where
  "CR = CHR 0x0D"

definition LF :: char where
  "LF = CHR 0x0A"

text \<open>\<^verbatim>\<open>s.replace(c, r)\<close> for a one-character pattern \<open>c\<close>.\<close>

definition replace1 :: "char \<Rightarrow> string \<Rightarrow> string \<Rightarrow> string" where
  "replace1 c r s = concat (map (\<lambda>x. if x = c then r else [x]) s)"

text \<open>\<^verbatim>\<open>s.startswith(t)\<close> and \<^verbatim>\<open>s.endswith(t)\<close>.\<close>

definition startswith :: "string \<Rightarrow> string \<Rightarrow> bool" where
  "startswith s t = (take (length t) s = t)"

definition endswith :: "string \<Rightarrow> string \<Rightarrow> bool" where
  "endswith s t = startswith (rev s) (rev t)"

text \<open>\<^verbatim>\<open>s.lstrip(c)\<close> and \<^verbatim>\<open>s.rstrip(c)\<close> for a one-character set.\<close>

definition lstrip1 :: "char \<Rightarrow> string \<Rightarrow> string" where
  "lstrip1 c s = dropWhile (\<lambda>x. x = c) s"

definition rstrip1 :: "char \<Rightarrow> string \<Rightarrow> string" where
  "rstrip1 c s = rev (dropWhile (\<lambda>x. x = c) (rev s))"

section \<open>Remote path normalisation: \<^verbatim>\<open>norm_remote\<close>\<close>

text \<open>
  \<^verbatim>\<open>p = (path or "").replace("\\", "/").replace("\r", "").replace("\n", "")\<close>:
  the first line of \<^verbatim>\<open>norm_remote\<close>, named because the shape of the result depends
  on how this intermediate string starts and ends.
\<close>

definition cleaned :: "string \<Rightarrow> string" where
  "cleaned path = replace1 LF [] (replace1 CR [] (replace1 backslash ''/'' path))"

definition norm_remote :: "string \<Rightarrow> string" where
  "norm_remote path =
     (let p = cleaned path;
          p = (if \<not> startswith p ''/'' then ''/'' @ p else p);
          p = (if length p > 1 \<and> endswith p ''/'' then butlast p else p)
      in p)"

section \<open>Configuration records\<close>

text \<open>The dataclasses \<^verbatim>\<open>Profile\<close> and \<^verbatim>\<open>BackupJob\<close>; Python's \<^verbatim>\<open>int\<close> is \<^typ>\<open>int\<close>.\<close>

record Profile =
  profile_name :: string
  host :: string
  port :: int
  username :: string
  password :: string
  tls :: bool
  root :: string

record BackupJob =
  name :: string
  enabled :: bool
  profile :: string
  mode :: string
  remote_source :: string
  local_target :: string
  days :: "string list"
  hour :: int
  minute :: int
  include_subdirs :: bool
  keep_last :: int
  dry_run :: bool

section \<open>The scheduler: \<^verbatim>\<open>check_and_run_due_jobs\<close>\<close>

text \<open>
  What one tick reads from the system time: the weekday tag of \<^verbatim>\<open>weekday_now()\<close> and
  the hour and minute of \<^verbatim>\<open>datetime.datetime.now()\<close>.
\<close>

record now_reading =
  day :: string
  hh :: nat
  mm :: nat

definition digit :: "nat \<Rightarrow> char" where
  "digit n = ''0123456789'' ! n"

function decimal :: "nat \<Rightarrow> string" where
  "decimal n = (if n < 10 then [digit n] else decimal (n div 10) @ [digit (n mod 10)])"
  by pat_completeness auto
termination
  by (relation "measure id") auto

text \<open>The format specification \<^verbatim>\<open>:02d\<close> on a natural number.\<close>

definition fmt02d :: "nat \<Rightarrow> string" where
  "fmt02d n = (let s = decimal n in if length s < 2 then ''0'' @ s else s)"

definition key_time :: "now_reading \<Rightarrow> string" where
  "key_time now = day now @ ''-'' @ fmt02d (hh now) @ '':'' @ fmt02d (mm now)"

text \<open>
  The loop over \<^verbatim>\<open>self.jobs\<close>. The state is the dictionary \<^verbatim>\<open>self.last_run_key\<close>; the
  result also lists the jobs handed to \<^verbatim>\<open>run_job\<close>, in order, and tells whether the loop
  was left by an exception. \<^verbatim>\<open>run_job\<close> catches what happens inside its \<^verbatim>\<open>try\<close>
  block; what it raises before that block (creating the local base directory) leaves
  the loop, and the predicate \<open>run_job_raises\<close> says for which jobs that happens. The
  key is stored before \<^verbatim>\<open>run_job\<close> is called.
\<close>

fun check_and_run_due_jobs ::
  "(BackupJob \<Rightarrow> bool) \<Rightarrow> now_reading \<Rightarrow> BackupJob list \<Rightarrow> (string \<rightharpoonup> string)
     \<Rightarrow> (string \<rightharpoonup> string) \<times> BackupJob list \<times> bool" where
  "check_and_run_due_jobs run_job_raises now [] last_run_key = (last_run_key, [], False)"
| "check_and_run_due_jobs run_job_raises now (job # rest) last_run_key =
     (if \<not> enabled job then check_and_run_due_jobs run_job_raises now rest last_run_key
      else if day now \<notin> set (days job)
        then check_and_run_due_jobs run_job_raises now rest last_run_key
      else if hour job \<noteq> int (hh now) \<or> minute job \<noteq> int (mm now)
        then check_and_run_due_jobs run_job_raises now rest last_run_key
      else if last_run_key (name job) = Some (key_time now)
        then check_and_run_due_jobs run_job_raises now rest last_run_key
      else if run_job_raises job then (last_run_key(name job \<mapsto> key_time now), [job], True)
      else (case check_and_run_due_jobs run_job_raises now rest
                   (last_run_key(name job \<mapsto> key_time now)) of
              (k, fired, raised) \<Rightarrow> (k, job # fired, raised)))"

text \<open>
  A run of the scheduler: \<^verbatim>\<open>_tick\<close> calls \<^verbatim>\<open>check_and_run_due_jobs\<close>, logs an
  exception if one comes out, and schedules the next tick. Each tick has its own reading
  of the time and sees the job list as it is then (the user may edit it between ticks).
\<close>

fun run_ticks ::
  "(BackupJob \<Rightarrow> bool) \<Rightarrow> (now_reading \<times> BackupJob list) list \<Rightarrow> (string \<rightharpoonup> string)
     \<Rightarrow> (string \<rightharpoonup> string) \<times> BackupJob list" where
  "run_ticks run_job_raises [] last_run_key = (last_run_key, [])"
| "run_ticks run_job_raises ((now, jobs) # later) last_run_key =
     (case check_and_run_due_jobs run_job_raises now jobs last_run_key of
        (k, fired, raised) \<Rightarrow>
          (case run_ticks run_job_raises later k of
             (k', fired') \<Rightarrow> (k', fired @ fired')))"

text \<open>The jobs of a list that carry a given name.\<close>

definition named :: "string \<Rightarrow> BackupJob list \<Rightarrow> BackupJob list" where
  "named n js = filter (\<lambda>j. name j = n) js"

text \<open>The first three tests of the loop, passed: the job is enabled and its day and time match.\<close>

definition due :: "now_reading \<Rightarrow> BackupJob \<Rightarrow> bool" where
  "due now j \<longleftrightarrow>
     enabled j \<and> day now \<in> set (days j) \<and> hour j = int (hh now) \<and> minute j = int (mm now)"

text \<open>Sample data: a job due on Saturdays at 03:00, and two readings of the time.\<close>

definition nightly :: BackupJob where
  "nightly = \<lparr>name = ''nightly'', enabled = True, profile = ''main'', mode = ''snapshot'',
     remote_source = ''/data'', local_target = ''/srv/backups'', days = [''Sat''],
     hour = 3, minute = 0, include_subdirs = True, keep_last = 10, dry_run = False\<rparr>"

definition sat_0300 :: now_reading where
  "sat_0300 = \<lparr>day = ''Sat'', hh = 3, mm = 0\<rparr>"

definition sat_0301 :: now_reading where
  "sat_0301 = \<lparr>day = ''Sat'', hh = 3, mm = 1\<rparr>"

text \<open>A second job of the same name, for another remote folder.\<close>

definition nightly_logs :: BackupJob where
  "nightly_logs = nightly\<lparr>remote_source := ''/logs''\<rparr>"

section \<open>Local paths\<close>

text \<open>
  A \<^verbatim>\<open>pathlib.Path\<close> on a POSIX system (\<^verbatim>\<open>os.sep\<close> is the slash): whether it is
  absolute, and its components. Parsing a string drops empty components and single
  dots, as \<^verbatim>\<open>pathlib\<close> does; a start with exactly two slashes is read as one slash.
\<close>

datatype path = Path (absolute: bool) (parts: "string list")

text \<open>\<^verbatim>\<open>s.split(c)\<close> for a one-character separator; the result is never empty.\<close>

fun split_on :: "char \<Rightarrow> string \<Rightarrow> string list" where
  "split_on c [] = [[]]"
| "split_on c (x # xs) =
     (if x = c then [] # split_on c xs
      else (case split_on c xs of [] \<Rightarrow> [[x]] | w # ws \<Rightarrow> (x # w) # ws))"

definition parse_path :: "string \<Rightarrow> path" where
  "parse_path s = Path (startswith s ''/'') (filter (\<lambda>x. x \<noteq> [] \<and> x \<noteq> ''.'') (split_on CHR ''/'' s))"

text \<open>The operator \<^verbatim>\<open>/\<close> of a path and a string: an absolute right operand replaces the left one.\<close>

definition joinpath :: "path \<Rightarrow> string \<Rightarrow> path" where
  "joinpath p s =
     (let q = parse_path s in if absolute q then q else Path (absolute p) (parts p @ parts q))"

text \<open>The child that \<^verbatim>\<open>iterdir\<close> yields for an entry name, and \<^verbatim>\<open>p.name\<close>.\<close>

definition child :: "path \<Rightarrow> string \<Rightarrow> path" where
  "child p n = Path (absolute p) (parts p @ [n])"

definition path_name :: "path \<Rightarrow> string" where
  "path_name p = (if parts p = [] then [] else last (parts p))"

fun intercalate :: "string \<Rightarrow> string list \<Rightarrow> string" where
  "intercalate sep [] = []"
| "intercalate sep [x] = x"
| "intercalate sep (x # y # ys) = x @ sep @ intercalate sep (y # ys)"

definition path_str :: "path \<Rightarrow> string" where
  "path_str p =
     (if absolute p then ''/'' @ intercalate ''/'' (parts p)
      else if parts p = [] then ''.'' else intercalate ''/'' (parts p))"

section \<open>Effects and errors\<close>

text \<open>
  An exception is a value; its text is what \<^verbatim>\<open>str(e)\<close> gives. What the program does to
  the world is recorded as a list of actions in the order they happen: log lines,
  webhook posts, and the calls that touch the local file system or the server. A call is
  recorded when it is made, whether it then succeeds or fails; \<open>Rmtree\<close> carries whether
  the removal succeeded, and \<open>CleanupCall\<close> marks the call of \<^verbatim>\<open>_cleanup_snapshots\<close>.
\<close>

datatype error = ValueError string | FtpError string | OSError string

datatype notice = Started | Succeeded | Failed

datatype action =
    Info string
  | Warn string
  | Error string
  | ErrorTraceback error
  | Discord notice string
  | Mkdir path
  | Connect
  | Download string path
  | CleanupCall path int
  | Rmtree path bool
  | Close

text \<open>
  The local file system as the program sees it: what \<^verbatim>\<open>exists\<close>, \<^verbatim>\<open>iterdir\<close> with
  \<^verbatim>\<open>is_dir\<close> on each child, \<^verbatim>\<open>shutil.rmtree\<close>, \<^verbatim>\<open>mkdir\<close>, opening a file for
  writing (after creating its parent directories), \<^verbatim>\<open>expanduser\<close> and \<^verbatim>\<open>resolve\<close>
  answer.
\<close>

record local_fs =
  fs_exists :: "path \<Rightarrow> bool"
  fs_iterdir :: "path \<Rightarrow> error + (string \<times> bool) list"
  fs_rmtree_fails :: "path \<Rightarrow> bool"
  fs_mkdir :: "path \<Rightarrow> error option"
  fs_open_wb :: "path \<Rightarrow> error option"
  fs_expanduser :: "path \<Rightarrow> path"
  fs_resolve :: "path \<Rightarrow> path"

text \<open>
  What the server answers to the commands the client sends, as \<^verbatim>\<open>ftplib\<close> reports it: an
  exception or a result. All remote paths the program sends are absolute (they come out
  of \<^verbatim>\<open>norm_remote\<close>), so the answers do not depend on the working directory and are
  functions of the path. \<^verbatim>\<open>mlsd\<close> retrieves the complete listing before it yields
  the first entry, so it either raises before any name is seen or yields all names; the
  facts it yields with each name are not used by the program.
\<close>

record ftp_server =
  srv_connect :: "error option"
  srv_pwd :: "error + string"
  srv_cwd :: "string \<Rightarrow> error option"
  srv_mlsd :: "string \<Rightarrow> error + string list"
  srv_nlst :: "string \<Rightarrow> error + string list"
  srv_retr :: "string \<Rightarrow> error option"

section \<open>Snapshot retention: \<^verbatim>\<open>_cleanup_snapshots\<close>\<close>

text \<open>The slice \<^verbatim>\<open>xs[k:]\<close>; a negative \<open>k\<close> counts from the end.\<close>

definition slice_from :: "int \<Rightarrow> 'a list \<Rightarrow> 'a list" where
  "slice_from k xs = (if k < 0 then drop (nat (int (length xs) + k)) xs else drop (nat k) xs)"

text \<open>
  \<^verbatim>\<open>xs.sort(key=f, reverse=True)\<close>: Python reverses the list, sorts it stably in
  ascending order and reverses the result, so that equal keys keep their order. Strings
  are compared as Python compares them, character by character by their codes, a proper
  prefix being smaller.
\<close>

definition sort_reverse :: "('a \<Rightarrow> 'k::linorder) \<Rightarrow> 'a list \<Rightarrow> 'a list" where
  "sort_reverse f xs = rev (sort_key f (rev xs))"

text \<open>
  The parameter \<^verbatim>\<open>keep_last\<close> is written \<open>keep\<close>, the name being taken by the field
  of the job. The body of the loop: one \<^verbatim>\<open>rmtree\<close> and the log line
  for its outcome.
\<close>

definition remove_snapshot :: "local_fs \<Rightarrow> path \<Rightarrow> action list" where
  "remove_snapshot fs d =
     (if fs_rmtree_fails fs d
      then [Rmtree d False, Warn (''Cleanup: could not remove '' @ path_str d)]
      else [Rmtree d True, Info (''Cleanup: removed old snapshot '' @ path_str d)])"

definition cleanup_snapshots :: "local_fs \<Rightarrow> path \<Rightarrow> int \<Rightarrow> error + action list" where
  "cleanup_snapshots fs job_dir keep =
     (if \<not> fs_exists fs job_dir then Inr []
      else (case fs_iterdir fs job_dir of
              Inl e \<Rightarrow> Inl e
            | Inr entries \<Rightarrow>
                (let snaps = map (child job_dir) (map fst (filter snd entries));
                     snaps = sort_reverse path_name snaps
                 in Inr (concat (map (remove_snapshot fs) (slice_from keep snaps))))))"

text \<open>
  Read off a list of actions: the snapshot names for which \<^verbatim>\<open>rmtree\<close> was called, and
  those for which it succeeded. \<open>subdirs\<close> are the names of the entries that are
  directories.
\<close>

definition attempted :: "action list \<Rightarrow> string list" where
  "attempted evs = concat (map (\<lambda>e. case e of Rmtree d ok \<Rightarrow> [path_name d] | _ \<Rightarrow> []) evs)"

definition removed :: "action list \<Rightarrow> string list" where
  "removed evs =
     concat (map (\<lambda>e. case e of Rmtree d ok \<Rightarrow> (if ok then [path_name d] else []) | _ \<Rightarrow> []) evs)"

definition subdirs :: "(string \<times> bool) list \<Rightarrow> string list" where
  "subdirs entries = map fst (filter snd entries)"

section \<open>The remote side: \<^verbatim>\<open>FTPClient\<close>\<close>

text \<open>
  \<^verbatim>\<open>is_dir\<close>: \<^verbatim>\<open>pwd\<close> is called outside the \<^verbatim>\<open>try\<close> block, so its exception
  leaves the method; a failure of either \<^verbatim>\<open>cwd\<close> gives \<^verbatim>\<open>False\<close>.
\<close>

definition is_dir :: "ftp_server \<Rightarrow> string \<Rightarrow> error + bool" where
  "is_dir srv p =
     (case srv_pwd srv of
        Inl e \<Rightarrow> Inl e
      | Inr cur \<Rightarrow>
          (case srv_cwd srv p of
             Some e \<Rightarrow> Inr False
           | None \<Rightarrow> (case srv_cwd srv cur of Some e \<Rightarrow> Inr False | None \<Rightarrow> Inr True)))"

text \<open>The loop with the set \<^verbatim>\<open>seen\<close> at the end of \<^verbatim>\<open>list_dir\<close>.\<close>

fun first_seen :: "'a list \<Rightarrow> 'a list \<Rightarrow> 'a list" where
  "first_seen seen [] = []"
| "first_seen seen (x # xs) =
     (if x \<in> set seen then first_seen seen xs else x # first_seen (x # seen) xs)"

definition list_dir :: "ftp_server \<Rightarrow> string \<Rightarrow> string list" where
  "list_dir srv p =
     (case srv_mlsd srv p of
        Inr names \<Rightarrow> filter (\<lambda>n. n \<noteq> ''.'' \<and> n \<noteq> ''..'') names
      | Inl e \<Rightarrow>
          (case srv_nlst srv p of
             Inr raw \<Rightarrow>
               first_seen [] (map (\<lambda>r. last (split_on CHR ''/'' (replace1 backslash ''/'' r))) raw)
           | Inl e' \<Rightarrow> []))"

text \<open>
  \<^verbatim>\<open>download_file\<close>: creating the parent directories and opening the local file may
  fail, then the retrieval may.
\<close>

definition download_file :: "ftp_server \<Rightarrow> local_fs \<Rightarrow> string \<Rightarrow> path \<Rightarrow> error option" where
  "download_file srv fs remote_full local_path =
     (case fs_open_wb fs local_path of Some e \<Rightarrow> Some e | None \<Rightarrow> srv_retr srv remote_full)"

section \<open>Local path resolution: \<^verbatim>\<open>safe_join_local\<close>\<close>

text \<open>\<^verbatim>\<open>p.parents\<close>: the proper ancestors of a path, nearest first.\<close>

definition parents :: "path \<Rightarrow> path list" where
  "parents p = map (\<lambda>n. Path (absolute p) (take n (parts p))) (rev [0..<length (parts p)])"

text \<open>
  The parameter \<^verbatim>\<open>root\<close> is written \<open>root_dir\<close>, the name being taken by the field of
  the profile. With the slash as separator, \<^verbatim>\<open>rel.replace("/", os.sep)\<close> replaces each
  slash by itself.
\<close>

definition safe_join_local :: "local_fs \<Rightarrow> path \<Rightarrow> string \<Rightarrow> error + path" where
  "safe_join_local fs root_dir rel =
     (let rel' = lstrip1 CHR ''/'' (replace1 CHR ''/'' ''/'' rel);
          out = fs_resolve fs (joinpath root_dir rel');
          rr = fs_resolve fs root_dir
      in if out \<noteq> rr \<and> rr \<notin> set (parents out)
         then Inl (ValueError (''Unsafe path: '' @ rel'))
         else Inr out)"

text \<open>
  \<^verbatim>\<open>resolve\<close> on a file system without symbolic links, with current directory \<open>cwd\<close>:
  the path is made absolute and each \<^verbatim>\<open>..\<close> removes the component before it (none at
  the root).
\<close>

fun resolve_parts :: "string list \<Rightarrow> string list \<Rightarrow> string list" where
  "resolve_parts acc [] = acc"
| "resolve_parts acc (x # xs) =
     (if x = ''..'' then resolve_parts (butlast acc) xs else resolve_parts (acc @ [x]) xs)"

definition posix_resolve :: "string list \<Rightarrow> path \<Rightarrow> path" where
  "posix_resolve cwd p = Path True (resolve_parts [] ((if absolute p then [] else cwd) @ parts p))"

section \<open>The tree walk: \<^verbatim>\<open>_download_dir\<close>\<close>

text \<open>
  How a stretch of the program ends: it runs to its end, an exception leaves it, or the
  bound on the depth of the recursion is used up (the walk has no bound of its own and
  does not end on a cyclic listing). \<open>seq\<close> runs a second stretch after a first one that
  ran to its end.
\<close>

datatype status = Finished | Raised error | OutOfFuel

definition seq :: "action list \<times> status \<Rightarrow> action list \<times> status \<Rightarrow> action list \<times> status" where
  "seq first second =
     (case first of
        (acts, Finished) \<Rightarrow> (acts @ fst second, snd second)
      | (acts, st) \<Rightarrow> (acts, st))"

text \<open>
  The \<^verbatim>\<open>else\<close> branch of the loop body, which is also the single-file branch of
  \<^verbatim>\<open>run_job\<close> up to the text of the log line (\<open>label\<close>): resolve the target, download
  unless \<^verbatim>\<open>dry_run\<close>, log.
\<close>

definition transfer_item ::
  "string \<Rightarrow> ftp_server \<Rightarrow> local_fs \<Rightarrow> string \<Rightarrow> path \<Rightarrow> BackupJob \<Rightarrow> string
     \<Rightarrow> action list \<times> status" where
  "transfer_item label srv fs remote_child local_root job rel_child =
     (case safe_join_local fs local_root rel_child of
        Inl e \<Rightarrow> ([], Raised e)
      | Inr target \<Rightarrow>
          (if \<not> dry_run job
           then (case download_file srv fs remote_child target of
                   Some e \<Rightarrow> ([Download remote_child target], Raised e)
                 | None \<Rightarrow>
                     ([Download remote_child target,
                       Info (label @ remote_child @ '' -> '' @ path_str target)], Finished))
           else ([Info (label @ remote_child @ '' -> '' @ path_str target)], Finished)))"

text \<open>
  \<^verbatim>\<open>_download_dir\<close> and its loop over the listing; the loop variable \<^verbatim>\<open>name\<close> is
  written \<open>nm\<close>. The first argument bounds the depth of the recursion.
  \<^verbatim>\<open>is_dir\<close> is called only when \<^verbatim>\<open>include_subdirs\<close> is set.
\<close>

fun download_dir ::
  "nat \<Rightarrow> ftp_server \<Rightarrow> local_fs \<Rightarrow> string \<Rightarrow> path \<Rightarrow> BackupJob \<Rightarrow> string
     \<Rightarrow> action list \<times> status"
and download_items ::
  "nat \<Rightarrow> ftp_server \<Rightarrow> local_fs \<Rightarrow> string \<Rightarrow> path \<Rightarrow> BackupJob \<Rightarrow> string \<Rightarrow> string list
     \<Rightarrow> action list \<times> status" where
  "download_dir 0 srv fs remote_dir local_root job rel_prefix = ([], OutOfFuel)"
| "download_dir (Suc n) srv fs remote_dir local_root job rel_prefix =
     seq ([Info (''Entering folder: '' @ remote_dir)], Finished)
       (download_items n srv fs remote_dir local_root job rel_prefix (list_dir srv remote_dir))"
| "download_items n srv fs remote_dir local_root job rel_prefix [] = ([], Finished)"
| "download_items n srv fs remote_dir local_root job rel_prefix (nm # items) =
     (let remote_child = rstrip1 CHR ''/'' remote_dir @ ''/'' @ nm;
          rel_child = lstrip1 CHR ''/'' (rel_prefix @ ''/'' @ nm)
      in seq
           (if include_subdirs job
            then (case is_dir srv remote_child of
                    Inl e \<Rightarrow> ([], Raised e)
                  | Inr True \<Rightarrow> download_dir n srv fs remote_child local_root job rel_child
                  | Inr False \<Rightarrow>
                      transfer_item ''Downloaded: '' srv fs remote_child local_root job rel_child)
            else transfer_item ''Downloaded: '' srv fs remote_child local_root job rel_child)
           (download_items n srv fs remote_dir local_root job rel_prefix items))"

section \<open>One run of a job: \<^verbatim>\<open>run_job\<close>\<close>

text \<open>
  \<^verbatim>\<open>s.strip()\<close> and \<^verbatim>\<open>s.lower()\<close>, on the ASCII characters. No character outside
  ASCII has a lowercase form that is a letter of \<^verbatim>\<open>snapshot\<close>, so the comparison of a
  lowercased mode with that word is not affected.
\<close>

definition is_space :: "char \<Rightarrow> bool" where
  "is_space c \<longleftrightarrow> c \<in> set [CHR 0x09, CHR 0x0A, CHR 0x0B, CHR 0x0C, CHR 0x0D,
                            CHR 0x1C, CHR 0x1D, CHR 0x1E, CHR 0x1F, CHR 0x20]"

definition strip :: "string \<Rightarrow> string" where
  "strip s = rev (dropWhile is_space (rev (dropWhile is_space s)))"

definition lower_char :: "char \<Rightarrow> char" where
  "lower_char c =
     (case map_of (zip ''ABCDEFGHIJKLMNOPQRSTUVWXYZ'' ''abcdefghijklmnopqrstuvwxyz'') c of
        Some d \<Rightarrow> d
      | None \<Rightarrow> c)"

definition lower :: "string \<Rightarrow> string" where
  "lower s = map lower_char s"

text \<open>
  What a run reads besides the job: the profiles, the three notification switches of the
  settings (each defaults to true), the time stamp \<^verbatim>\<open>now_stamp()\<close> gives, the server a
  profile connects to, and the local file system.
\<close>

record world =
  profiles :: "Profile list"
  notify_start :: bool
  notify_success :: bool
  notify_failure :: bool
  now_stamp :: string
  server :: "Profile \<Rightarrow> ftp_server"
  files :: local_fs

definition get_profile :: "Profile list \<Rightarrow> string \<Rightarrow> Profile option" where
  "get_profile ps n = find (\<lambda>p. profile_name p = n) ps"

definition remote_full_of :: "Profile \<Rightarrow> BackupJob \<Rightarrow> string" where
  "remote_full_of p job =
     (let remote_root = norm_remote (if root p = [] then ''/'' else root p);
          src = replace1 LF [] (replace1 CR [] (strip (remote_source job)))
      in if startswith src ''/'' then norm_remote src
         else norm_remote (rstrip1 CHR ''/'' remote_root @ ''/'' @ src))"

definition local_base_of :: "world \<Rightarrow> BackupJob \<Rightarrow> path" where
  "local_base_of w job = fs_expanduser (files w) (parse_path (local_target job))"

definition job_dir_of :: "world \<Rightarrow> Profile \<Rightarrow> BackupJob \<Rightarrow> path" where
  "job_dir_of w p job = joinpath (joinpath (local_base_of w job) (profile_name p)) (name job)"

definition dest_root_of :: "world \<Rightarrow> Profile \<Rightarrow> BackupJob \<Rightarrow> path" where
  "dest_root_of w p job =
     (if lower (mode job) = ''snapshot''
      then joinpath (job_dir_of w p job) (now_stamp w)
      else joinpath (job_dir_of w p job) ''MIRROR'')"

text \<open>The statements between \<^verbatim>\<open>cli.connect()\<close> and the end of the \<^verbatim>\<open>try\<close> block.\<close>

definition transfer :: "nat \<Rightarrow> world \<Rightarrow> Profile \<Rightarrow> BackupJob \<Rightarrow> action list \<times> status" where
  "transfer fuel w p job =
     (let remote_full = remote_full_of p job; dest_root = dest_root_of w p job
      in case is_dir (server w p) remote_full of
           Inl e \<Rightarrow> ([], Raised e)
         | Inr True \<Rightarrow> download_dir fuel (server w p) (files w) remote_full dest_root job []
         | Inr False \<Rightarrow>
             transfer_item ''Downloaded file: '' (server w p) (files w) remote_full dest_root job
               (last (split_on CHR ''/'' remote_full)))"

definition cleanup :: "world \<Rightarrow> Profile \<Rightarrow> BackupJob \<Rightarrow> action list \<times> status" where
  "cleanup w p job =
     (if lower (mode job) = ''snapshot'' \<and> keep_last job \<noteq> 0 \<and> keep_last job > 0
      then (case cleanup_snapshots (files w) (job_dir_of w p job) (keep_last job) of
              Inl e \<Rightarrow> ([CleanupCall (job_dir_of w p job) (keep_last job)], Raised e)
            | Inr acts \<Rightarrow> (CleanupCall (job_dir_of w p job) (keep_last job) # acts, Finished))
      else ([], Finished))"

definition attempt :: "nat \<Rightarrow> world \<Rightarrow> Profile \<Rightarrow> BackupJob \<Rightarrow> action list \<times> status" where
  "attempt fuel w p job =
     seq (case srv_connect (server w p) of
            Some e \<Rightarrow> ([Connect], Raised e)
          | None \<Rightarrow> ([Connect], Finished))
       (seq (transfer fuel w p job)
          (seq (cleanup w p job)
             ([Info (''JOB DONE: '' @ name job)]
                @ (if notify_success w
                   then [Discord Succeeded (''Backup done: '' @ name job @ '' ('' @ profile_name p @ '')'')]
                   else []), Finished)))"

definition err_text :: "error \<Rightarrow> string" where
  "err_text e = (case e of ValueError m \<Rightarrow> m | FtpError m \<Rightarrow> m | OSError m \<Rightarrow> m)"

text \<open>
  \<^verbatim>\<open>run_job\<close>. Creating the local base directory happens before the \<^verbatim>\<open>try\<close> block, so
  its exception leaves \<^verbatim>\<open>run_job\<close>; every exception inside the block is caught, logged
  and reported, and the connection is closed in each case. The text of a webhook post is
  recorded without its leading emoji and with a hyphen for the dash, and the traceback
  log line as the exception it prints.
\<close>

definition run_job :: "nat \<Rightarrow> world \<Rightarrow> BackupJob \<Rightarrow> action list \<times> status" where
  "run_job fuel w job =
     (case get_profile (profiles w) (profile job) of
        None \<Rightarrow>
          ([Error (''Job '' @ [CHR 0x27] @ name job @ [CHR 0x27] @ '': profile '' @ [CHR 0x27]
                    @ profile job @ [CHR 0x27] @ '' not found.'')], Finished)
      | Some p \<Rightarrow>
          (case fs_mkdir (files w) (local_base_of w job) of
             Some e \<Rightarrow> ([Mkdir (local_base_of w job)], Raised e)
           | None \<Rightarrow>
               (let before =
                      [Mkdir (local_base_of w job),
                       Info (''JOB: '' @ name job @ '' | mode='' @ mode job @ '' | profile=''
                             @ profile_name p)]
                      @ (if notify_start w
                         then [Discord Started
                                 (''Backup started: '' @ name job @ '' ('' @ profile_name p @ '')'')]
                         else [])
                      @ [Info (''Remote: '' @ remote_full_of p job),
                         Info (''Local : '' @ path_str (dest_root_of w p job))]
                      @ (if dry_run job
                         then [Warn ''Dry run enabled: no files will be downloaded.'']
                         else [])
                in case attempt fuel w p job of
                     (acts, Finished) \<Rightarrow> (before @ acts @ [Close], Finished)
                   | (acts, Raised e) \<Rightarrow>
                       (before @ acts
                          @ [Error (''JOB FAILED: '' @ name job @ '' -> '' @ err_text e)]
                          @ (if notify_failure w
                             then [Discord Failed
                                     (''Backup failed: '' @ name job @ '' ('' @ profile job
                                      @ '') - '' @ err_text e)]
                             else [])
                          @ [ErrorTraceback e, Close], Finished)
                   | (acts, OutOfFuel) \<Rightarrow> (before @ acts, OutOfFuel))))"

text \<open>Reading a list of actions: the calls of \<^verbatim>\<open>download_file\<close>, the log lines of the
  transfers, and what belongs to the cleanup.\<close>

definition is_download :: "action \<Rightarrow> bool" where
  "is_download a = (case a of Download r t \<Rightarrow> True | _ \<Rightarrow> False)"

definition is_transfer_log :: "action \<Rightarrow> bool" where
  "is_transfer_log a = (case a of Info m \<Rightarrow> startswith m ''Downloaded'' | _ \<Rightarrow> False)"

definition is_cleanup :: "action \<Rightarrow> bool" where
  "is_cleanup a = (case a of CleanupCall d k \<Rightarrow> True | Rmtree d ok \<Rightarrow> True | _ \<Rightarrow> False)"

section \<open>Sample data\<close>

text \<open>
  A job directory with four snapshots and a file, listed out of order; removing the
  oldest snapshot fails. The file system has no symbolic links and nothing else fails.
\<close>

definition snap_dir :: path where
  "snap_dir = Path True [''srv'', ''backups'', ''main'', ''nightly'']"

definition snap_entries :: "(string \<times> bool) list" where
  "snap_entries = [(''20240103_030000'', True), (''20240101_030000'', True), (''notes.txt'', False),
     (''20240104_030000'', True), (''20240102_030000'', True)]"

definition snap_fs :: local_fs where
  "snap_fs = \<lparr>fs_exists = (\<lambda>p. p = snap_dir),
     fs_iterdir = (\<lambda>p. if p = snap_dir then Inr snap_entries
                        else Inl (OSError ''No such file or directory'')),
     fs_rmtree_fails = (\<lambda>p. p = child snap_dir ''20240101_030000''),
     fs_mkdir = (\<lambda>p. None),
     fs_open_wb = (\<lambda>p. None),
     fs_expanduser = (\<lambda>p. p),
     fs_resolve = posix_resolve []\<rparr>"

text \<open>A local backup root.\<close>

definition backups :: path where
  "backups = Path True [''srv'', ''backups'']"

text \<open>
  A server with the folder \<^verbatim>\<open>/data\<close>: two files and the subfolder \<^verbatim>\<open>sub\<close> with three
  files. It answers \<^verbatim>\<open>MLSD\<close>, and refuses to retrieve anything that is not a file.
\<close>

definition data_server :: ftp_server where
  "data_server = \<lparr>srv_connect = None,
     srv_pwd = Inr ''/'',
     srv_cwd = (\<lambda>p. if p \<in> set [''/'', ''/data'', ''/data/sub''] then None
                     else Some (FtpError ''550 Failed to change directory.'')),
     srv_mlsd = (\<lambda>p. if p = ''/data'' then Inr [''.'', ''..'', ''a.txt'', ''sub'', ''b.txt'']
                      else if p = ''/data/sub'' then Inr [''.'', ''..'', ''c.txt'', ''d.txt'', ''e.txt'']
                      else Inl (FtpError ''550 Failed to list.'')),
     srv_nlst = (\<lambda>p. Inl (FtpError ''550 Failed to list.'')),
     srv_retr = (\<lambda>p. if p \<in> set [''/data/a.txt'', ''/data/b.txt'', ''/data/sub/c.txt'',
                                   ''/data/sub/d.txt'', ''/data/sub/e.txt'']
                      then None else Some (FtpError ''550 Failed to open file.''))\<rparr>"

text \<open>
  A server that does not know \<^verbatim>\<open>MLSD\<close> and whose \<^verbatim>\<open>NLST\<close> lists the dot entries
  with the names.
\<close>

definition legacy_server :: ftp_server where
  "legacy_server = \<lparr>srv_connect = None,
     srv_pwd = Inr ''/'',
     srv_cwd = (\<lambda>p. if p \<in> set [''/'', ''/data''] then None
                     else Some (FtpError ''550 Failed to change directory.'')),
     srv_mlsd = (\<lambda>p. Inl (FtpError ''500 Unknown command.'')),
     srv_nlst = (\<lambda>p. if p = ''/data''
                      then Inr [''/data/.'', ''/data/..'', ''/data/a.txt'', ''/data/b.txt'']
                      else Inl (FtpError ''550 Failed to list.'')),
     srv_retr = (\<lambda>p. if p \<in> set [''/data/a.txt'', ''/data/b.txt''] then None
                      else Some (FtpError ''550 Failed to open file.''))\<rparr>"

definition main_profile :: Profile where
  "main_profile = \<lparr>profile_name = ''main'', host = ''ftp.example.org'', port = 21,
     username = ''backup'', password = ''secret'', tls = False, root = ''/''\<rparr>"

definition home_world :: world where
  "home_world = \<lparr>profiles = [main_profile], notify_start = True, notify_success = True,
     notify_failure = True, now_stamp = ''20240105_030000'', server = (\<lambda>p. data_server),
     files = snap_fs\<rparr>"

text \<open>The destination of a snapshot run of \<open>nightly\<close> in that world.\<close>

definition nightly_dest :: path where
  "nightly_dest = Path True [''srv'', ''backups'', ''main'', ''nightly'', ''20240105_030000'']"

section \<open>Facts about the string operations\<close>

lemma startswith_slash_iff: "startswith s ''/'' \<longleftrightarrow> (\<exists>t. s = CHR ''/'' # t)"
  by (cases s) (auto simp: startswith_def)

lemma endswith_slash_iff: "endswith s ''/'' \<longleftrightarrow> (\<exists>t. s = t @ ''/'')"
  by (cases s rule: rev_cases) (auto simp: endswith_def startswith_def)

lemma endswith_two_slashes_iff: "endswith s ''//'' \<longleftrightarrow> (\<exists>t. s = t @ ''//'')"
proof (cases s rule: rev_cases)
  case Nil
  then show ?thesis by (simp add: endswith_def startswith_def)
next
  case (snoc ys y)
  then show ?thesis
    by (cases ys rule: rev_cases) (auto simp: endswith_def startswith_def)
qed

lemma set_replace1_drop: "set (replace1 c [] s) = set s - {c}"
  by (induction s) (auto simp: replace1_def)

lemma set_replace1_char: "set (replace1 c [d] s) = (\<lambda>x. if x = c then d else x) ` set s"
  by (induction s) (auto simp: replace1_def)

lemma replace1_absent: "c \<notin> set s \<Longrightarrow> replace1 c r s = s"
  by (induction s) (auto simp: replace1_def)

lemma backslash_notin_cleaned: "backslash \<notin> set (cleaned p)"
  by (auto simp: cleaned_def set_replace1_drop set_replace1_char backslash_def)

lemma CR_notin_cleaned: "CR \<notin> set (cleaned p)"
  by (auto simp: cleaned_def set_replace1_drop)

lemma LF_notin_cleaned: "LF \<notin> set (cleaned p)"
  by (auto simp: cleaned_def set_replace1_drop)

lemma cleaned_fixed:
  "backslash \<notin> set s \<Longrightarrow> CR \<notin> set s \<Longrightarrow> LF \<notin> set s \<Longrightarrow> cleaned s = s"
  by (simp add: cleaned_def replace1_absent)

lemma set_norm_remote_subset: "set (norm_remote p) \<subseteq> insert CHR ''/'' (set (cleaned p))"
  by (auto simp: norm_remote_def Let_def dest: in_set_butlastD)

lemma norm_remote_starts: "startswith (norm_remote p) ''/''"
  by (cases "cleaned p"; cases "cleaned p" rule: rev_cases)
     (auto simp: norm_remote_def Let_def startswith_def butlast_append)

lemmas char_defs = backslash_def CR_def LF_def

lemma startswith_two_slashes_iff: "startswith s ''//'' \<longleftrightarrow> (\<exists>t. s = ''//'' @ t)"
  by (cases s; cases "tl s") (auto simp: startswith_def)

lemma norm_remote_no_double_lead:
  "\<not> startswith (cleaned p) ''//'' \<Longrightarrow> \<not> startswith (norm_remote p) ''//''"
  by (cases "cleaned p" rule: rev_cases)
     (auto simp: norm_remote_def Let_def startswith_two_slashes_iff startswith_slash_iff
        endswith_slash_iff butlast_append Cons_eq_append_conv split: if_splits)

lemma norm_remote_no_trailing:
  "\<not> endswith (cleaned p) ''//'' \<Longrightarrow> norm_remote p = ''/'' \<or> \<not> endswith (norm_remote p) ''/''"
  by (cases "cleaned p" rule: rev_cases)
     (auto simp: norm_remote_def Let_def endswith_two_slashes_iff startswith_slash_iff
        endswith_slash_iff butlast_append Cons_eq_append_conv append_eq_Cons_conv split: if_splits)

lemma norm_remote_clean:
  "backslash \<notin> set (norm_remote p) \<and> CR \<notin> set (norm_remote p) \<and> LF \<notin> set (norm_remote p)"
proof -
  have "backslash \<noteq> CHR ''/''" "CR \<noteq> CHR ''/''" "LF \<noteq> CHR ''/''"
    by (simp_all add: char_defs)
  with set_norm_remote_subset [of p] backslash_notin_cleaned [of p] CR_notin_cleaned [of p]
    LF_notin_cleaned [of p]
  show ?thesis by blast
qed

lemma norm_remote_fixed:
  assumes "backslash \<notin> set s" "CR \<notin> set s" "LF \<notin> set s" "startswith s ''/''"
    "s = ''/'' \<or> \<not> endswith s ''/''"
  shows "norm_remote s = s"
  using assms by (auto simp: norm_remote_def Let_def cleaned_fixed)

lemma replace1_drop_filter: "replace1 c [] s = filter (\<lambda>x. x \<noteq> c) s"
  by (induction s) (auto simp: replace1_def)

lemma replace1_char_map: "replace1 c [d] s = map (\<lambda>x. if x = c then d else x) s"
  by (induction s) (auto simp: replace1_def)

lemma cleaned_eq:
  "cleaned p = filter (\<lambda>c. c \<noteq> CR \<and> c \<noteq> LF) (map (\<lambda>c. if c = backslash then CHR ''/'' else c) p)"
  by (auto simp: cleaned_def replace1_drop_filter replace1_char_map intro: filter_cong)

lemma norm_remote_frame:
  "\<exists>a b. a \<in> {[], ''/''} \<and> b \<in> {[], ''/''} \<and> a @ cleaned p = norm_remote p @ b"
proof (cases "startswith (cleaned p) ''/''")
  case True
  show ?thesis
  proof (cases "length (cleaned p) > 1 \<and> endswith (cleaned p) ''/''")
    case strip: True
    then have "cleaned p = butlast (cleaned p) @ ''/''"
      by (auto simp: endswith_slash_iff)
    with True strip have "[] @ cleaned p = norm_remote p @ ''/''"
      by (simp add: norm_remote_def Let_def)
    then show ?thesis by blast
  next
    case False
    with True have "[] @ cleaned p = norm_remote p @ []"
      by (auto simp: norm_remote_def Let_def)
    then show ?thesis by blast
  qed
next
  case False
  show ?thesis
  proof (cases "endswith (cleaned p) ''/''")
    case strip: True
    then have "cleaned p = butlast (cleaned p) @ ''/''" "cleaned p \<noteq> []"
      by (auto simp: endswith_slash_iff)
    with False strip have "''/'' @ cleaned p = norm_remote p @ ''/''"
      by (auto simp: norm_remote_def Let_def endswith_slash_iff butlast_append)
    then show ?thesis by blast
  next
    case nostrip: False
    then have "\<not> endswith (''/'' @ cleaned p) ''/'' \<or> cleaned p = []"
      by (auto simp: endswith_slash_iff Cons_eq_append_conv)
    with False nostrip have "''/'' @ cleaned p = norm_remote p @ []"
      by (auto simp: norm_remote_def Let_def)
    then show ?thesis by blast
  qed
qed

section \<open>Claims about \<^verbatim>\<open>norm_remote\<close>\<close>

text \<open>
  C7, as stated, at the input \<^verbatim>\<open>a//\<close>: the result \<^verbatim>\<open>/a/\<close> is not the root
  path and still ends with a slash, because only one trailing slash is removed.
\<close>

theorem norm_remote_trailing_counterexample:
  "norm_remote ''a//'' = ''/a/'' \<and> endswith (norm_remote ''a//'') ''/'' \<and> norm_remote ''a//'' \<noteq> ''/''"
  by (simp add: norm_remote_def cleaned_def replace1_def startswith_def endswith_def char_defs)

text \<open>
  C7, amended. \<^verbatim>\<open>norm_remote\<close> is a total function of its argument alone. Its result
  contains no backslash, no carriage return and no line feed: it is the input with each
  backslash turned into a slash and the carriage returns and line feeds removed, up to
  one slash put in front and one slash taken from the end. The result starts with a
  slash. The leading slash is a single one when the input, after
  the replacements, does not start with two slashes, and the result has no trailing
  slash, unless it is the root path, when the input after the replacements does not end
  with two slashes.
\<close>

theorem norm_remote_shape:
  "backslash \<notin> set (norm_remote p) \<and> CR \<notin> set (norm_remote p) \<and> LF \<notin> set (norm_remote p)
   \<and> (\<exists>a b. a \<in> {[], ''/''} \<and> b \<in> {[], ''/''}
         \<and> a @ filter (\<lambda>c. c \<noteq> CR \<and> c \<noteq> LF)
                 (map (\<lambda>c. if c = backslash then CHR ''/'' else c) p)
             = norm_remote p @ b)
   \<and> startswith (norm_remote p) ''/''
   \<and> (\<not> startswith (cleaned p) ''//'' \<longrightarrow> \<not> startswith (norm_remote p) ''//'')
   \<and> (\<not> endswith (cleaned p) ''//'' \<longrightarrow>
        norm_remote p = ''/'' \<or> \<not> endswith (norm_remote p) ''/'')"
  using norm_remote_clean [of p] norm_remote_frame [of p] norm_remote_starts [of p]
    norm_remote_no_double_lead [of p] norm_remote_no_trailing [of p]
  by (simp add: cleaned_eq [symmetric])

theorem norm_remote_shape_witness:
  "\<not> startswith (cleaned [CHR ''a'', backslash, CHR ''b'', CR, LF, CHR ''/'']) ''//''
   \<and> \<not> endswith (cleaned [CHR ''a'', backslash, CHR ''b'', CR, LF, CHR ''/'']) ''//''
   \<and> \<not> startswith (norm_remote [CHR ''a'', backslash, CHR ''b'', CR, LF, CHR ''/'']) ''//''
   \<and> (norm_remote [CHR ''a'', backslash, CHR ''b'', CR, LF, CHR ''/''] = ''/''
        \<or> \<not> endswith (norm_remote [CHR ''a'', backslash, CHR ''b'', CR, LF, CHR ''/'']) ''/'')"
proof -
  have c: "cleaned [CHR ''a'', backslash, CHR ''b'', CR, LF, CHR ''/''] = ''a/b/''"
    by (simp add: cleaned_def replace1_def char_defs)
  have h1: "\<not> startswith (cleaned [CHR ''a'', backslash, CHR ''b'', CR, LF, CHR ''/'']) ''//''"
    by (simp add: c startswith_def)
  have h2: "\<not> endswith (cleaned [CHR ''a'', backslash, CHR ''b'', CR, LF, CHR ''/'']) ''//''"
    by (simp add: c startswith_def endswith_def)
  from h1 h2 norm_remote_shape [of "[CHR ''a'', backslash, CHR ''b'', CR, LF, CHR ''/'']"]
  show ?thesis by blast
qed

text \<open>
  C8, as stated, at the input \<^verbatim>\<open>a//\<close>: the first application gives \<^verbatim>\<open>/a/\<close>,
  the second \<^verbatim>\<open>/a\<close>.
\<close>

theorem norm_remote_idempotent_counterexample:
  "norm_remote (norm_remote ''a//'') \<noteq> norm_remote ''a//''"
  by (simp add: norm_remote_def cleaned_def replace1_def startswith_def endswith_def char_defs)

text \<open>
  C8, amended. For every string whose form after the replacements does not end with
  two slashes, applying \<^verbatim>\<open>norm_remote\<close> twice gives the same as applying it once.
\<close>

theorem norm_remote_idempotent:
  assumes "\<not> endswith (cleaned p) ''//''"
  shows "norm_remote (norm_remote p) = norm_remote p"
proof -
  from assms have "norm_remote p = ''/'' \<or> \<not> endswith (norm_remote p) ''/''"
    by (rule norm_remote_no_trailing)
  with norm_remote_clean [of p] norm_remote_starts [of p] show ?thesis
    by (intro norm_remote_fixed) simp_all
qed

theorem norm_remote_idempotent_witness:
  "\<not> endswith (cleaned ''data/logs/'') ''//''
   \<and> norm_remote (norm_remote ''data/logs/'') = norm_remote ''data/logs/''"
proof -
  have h: "\<not> endswith (cleaned ''data/logs/'') ''//''"
    by (simp add: cleaned_def replace1_def startswith_def endswith_def char_defs)
  from h norm_remote_idempotent [OF h] show ?thesis by blast
qed

section \<open>Facts about the scheduler\<close>

lemma named_simps [simp]:
  "named n [] = []"
  "named n (j # js) = (if name j = n then j # named n js else named n js)"
  "named n (xs @ ys) = named n xs @ named n ys"
  by (simp_all add: named_def)

lemma check_key_kept:
  assumes "check_and_run_due_jobs r now jobs k = (k', fired, raised)"
    and "k n = Some (key_time now)"
  shows "named n fired = [] \<and> k' n = Some (key_time now)"
  using assms
proof (induction jobs arbitrary: k k' fired raised)
  case Nil
  then show ?case by simp
next
  case (Cons job rest)
  then show ?case
    by (auto split: if_splits prod.splits)
qed

lemma check_fires_once:
  assumes "check_and_run_due_jobs r now jobs k = (k', fired, raised)"
  shows "length (named n fired) \<le> 1 \<and> (named n fired \<noteq> [] \<longrightarrow> k' n = Some (key_time now))"
  using assms
proof (induction jobs arbitrary: k k' fired raised)
  case Nil
  then show ?case by simp
next
  case (Cons job rest)
  show ?case
  proof (cases "enabled job \<and> day now \<in> set (days job) \<and> hour job = int (hh now)
      \<and> minute job = int (mm now) \<and> k (name job) \<noteq> Some (key_time now)")
    case False
    with Cons.prems have "check_and_run_due_jobs r now rest k = (k', fired, raised)"
      by (auto split: if_splits)
    then show ?thesis by (rule Cons.IH)
  next
    case due: True
    show ?thesis
    proof (cases "r job")
      case True
      with due Cons.prems show ?thesis by auto
    next
      case False
      with due Cons.prems obtain fired0 where
        rest: "check_and_run_due_jobs r now rest (k(name job \<mapsto> key_time now)) = (k', fired0, raised)"
        and fired: "fired = job # fired0"
        by (auto split: prod.splits)
      from Cons.IH [OF rest] have ih: "length (named n fired0) \<le> 1"
        "named n fired0 \<noteq> [] \<longrightarrow> k' n = Some (key_time now)" by simp_all
      show ?thesis
      proof (cases "name job = n")
        case True
        then have "(k(name job \<mapsto> key_time now)) n = Some (key_time now)" by simp
        from check_key_kept [OF rest this] True fired show ?thesis by simp
      next
        case False
        with ih fired show ?thesis by simp
      qed
    qed
  qed
qed

lemma check_fired_due:
  assumes "check_and_run_due_jobs r now jobs k = (k', fired, raised)" and "j \<in> set fired"
  shows "j \<in> set jobs \<and> enabled j \<and> day now \<in> set (days j) \<and> hour j = int (hh now)
     \<and> minute j = int (mm now)"
  using assms
proof (induction jobs arbitrary: k k' fired raised)
  case Nil
  then show ?case by simp
next
  case (Cons job rest)
  then show ?case
    by (fastforce split: if_splits prod.splits)
qed

lemma ticks_key_kept:
  assumes "run_ticks r obs k = (k', fired)"
    and "\<forall>(now, jobs) \<in> set obs. key_time now = key"
    and "k n = Some key"
  shows "named n fired = [] \<and> k' n = Some key"
  using assms
proof (induction obs arbitrary: k k' fired)
  case Nil
  then show ?case by simp
next
  case (Cons ob later)
  obtain now jobs where ob: "ob = (now, jobs)" by (cases ob)
  obtain k1 f1 r1 where c: "check_and_run_due_jobs r now jobs k = (k1, f1, r1)"
    by (cases "check_and_run_due_jobs r now jobs k")
  obtain k2 f2 where t: "run_ticks r later k1 = (k2, f2)"
    by (cases "run_ticks r later k1")
  from Cons.prems(1) ob c t have eq: "k' = k2" "fired = f1 @ f2" by simp_all
  from Cons.prems(2) ob have key: "key_time now = key" by simp
  from check_key_kept [OF c] Cons.prems(3) key have 1: "named n f1 = []" "k1 n = Some key" by simp_all
  from Cons.prems(2) have "\<forall>(now, jobs) \<in> set later. key_time now = key" by simp
  from Cons.IH [OF t this 1(2)] 1 eq show ?case by simp
qed

lemma ticks_fire_once:
  assumes "run_ticks r obs k = (k', fired)"
    and "\<forall>(now, jobs) \<in> set obs. key_time now = key"
  shows "length (named n fired) \<le> 1"
  using assms
proof (induction obs arbitrary: k k' fired)
  case Nil
  then show ?case by simp
next
  case (Cons ob later)
  obtain now jobs where ob: "ob = (now, jobs)" by (cases ob)
  obtain k1 f1 r1 where c: "check_and_run_due_jobs r now jobs k = (k1, f1, r1)"
    by (cases "check_and_run_due_jobs r now jobs k")
  obtain k2 f2 where t: "run_ticks r later k1 = (k2, f2)"
    by (cases "run_ticks r later k1")
  from Cons.prems(1) ob c t have eq: "k' = k2" "fired = f1 @ f2" by simp_all
  from Cons.prems(2) ob have key: "key_time now = key" by simp
  from Cons.prems(2) have later: "\<forall>(now, jobs) \<in> set later. key_time now = key" by simp
  from check_fires_once [OF c, of n] key
  have 1: "length (named n f1) \<le> 1" "named n f1 \<noteq> [] \<longrightarrow> k1 n = Some key" by simp_all
  show ?case
  proof (cases "named n f1 = []")
    case True
    with Cons.IH [OF t later] eq show ?thesis by simp
  next
    case False
    with 1 have "k1 n = Some key" by simp
    from ticks_key_kept [OF t later this] 1 eq show ?thesis by simp
  qed
qed

lemma count_le_named: "count_list js j \<le> length (named (name j) js)"
  by (induction js) auto

lemma later_ticks_skip:
  assumes c: "check_and_run_due_jobs r now jobs k = (k1, f1, r1)" and j: "job \<in> set f1"
    and t: "run_ticks r later k1 = (k2, f2)"
    and same: "\<forall>(now', jobs') \<in> set later. key_time now' = key_time now"
  shows "job \<notin> set f2"
proof -
  from j have "named (name job) f1 \<noteq> []" by (auto simp: named_def filter_empty_conv)
  with check_fires_once [OF c, of "name job"] have "k1 (name job) = Some (key_time now)" by simp
  from ticks_key_kept [OF t same this] show ?thesis
    by (auto simp: named_def filter_empty_conv)
qed

lemma check_second_skipped:
  assumes "check_and_run_due_jobs r now (pre @ a # rest) k = (k', fired, raised)"
    and "due now a" and "name b = name a" and "b \<noteq> a" and "b \<notin> set pre"
  shows "b \<notin> set fired"
  using assms(1,5)
proof (induction pre arbitrary: k k' fired raised)
  case Nil
  show ?case
  proof (cases "k (name a) = Some (key_time now)")
    case True
    from check_key_kept [OF Nil.prems(1) True] assms(3) show ?thesis
      by (auto simp: named_def filter_empty_conv)
  next
    case False
    show ?thesis
    proof (cases "r a")
      case True
      with False Nil.prems(1) assms(2,4) show ?thesis by (auto simp: due_def)
    next
      case nr: False
      with False Nil.prems(1) assms(2) obtain fired0 where
        rest: "check_and_run_due_jobs r now rest (k(name a \<mapsto> key_time now)) = (k', fired0, raised)"
        and fired: "fired = a # fired0"
        by (auto simp: due_def split: prod.splits)
      have "(k(name a \<mapsto> key_time now)) (name a) = Some (key_time now)" by simp
      from check_key_kept [OF rest this] assms(3) have "b \<notin> set fired0"
        by (auto simp: named_def filter_empty_conv)
      with fired assms(4) show ?thesis by simp
    qed
  qed
next
  case (Cons p pre)
  from Cons.prems(2) have bp: "b \<noteq> p" "b \<notin> set pre" by auto
  show ?case
  proof (cases "enabled p \<and> day now \<in> set (days p) \<and> hour p = int (hh now)
      \<and> minute p = int (mm now) \<and> k (name p) \<noteq> Some (key_time now)")
    case False
    with Cons.prems(1) have "check_and_run_due_jobs r now (pre @ a # rest) k = (k', fired, raised)"
      by (auto split: if_splits)
    from Cons.IH [OF this bp(2)] show ?thesis .
  next
    case fires: True
    show ?thesis
    proof (cases "r p")
      case True
      with fires Cons.prems(1) bp show ?thesis by auto
    next
      case False
      with fires Cons.prems(1) obtain fired0 where
        rest: "check_and_run_due_jobs r now (pre @ a # rest) (k(name p \<mapsto> key_time now))
                 = (k', fired0, raised)"
        and fired: "fired = p # fired0"
        by (auto split: prod.splits)
      from Cons.IH [OF rest bp(2)] fired bp show ?thesis by simp
    qed
  qed
qed

lemma check_first_fires:
  assumes "check_and_run_due_jobs r now (pre @ a # rest) k = (k', fired, raised)"
    and "due now a" and "k (name a) \<noteq> Some (key_time now)"
    and "\<forall>p \<in> set pre. name p \<noteq> name a \<and> \<not> r p"
  shows "a \<in> set fired"
  using assms(1,3,4)
proof (induction pre arbitrary: k k' fired raised)
  case Nil
  with assms(2) show ?case
    by (auto simp: due_def split: if_splits prod.splits)
next
  case (Cons p pre)
  from Cons.prems(3) have p: "name p \<noteq> name a" "\<not> r p"
    and pre: "\<forall>p \<in> set pre. name p \<noteq> name a \<and> \<not> r p" by simp_all
  show ?case
  proof (cases "enabled p \<and> day now \<in> set (days p) \<and> hour p = int (hh now)
      \<and> minute p = int (mm now) \<and> k (name p) \<noteq> Some (key_time now)")
    case False
    with Cons.prems(1) have "check_and_run_due_jobs r now (pre @ a # rest) k = (k', fired, raised)"
      by (auto split: if_splits)
    from Cons.IH [OF this Cons.prems(2) pre] show ?thesis .
  next
    case True
    with p Cons.prems(1) obtain fired0 where
      rest: "check_and_run_due_jobs r now (pre @ a # rest) (k(name p \<mapsto> key_time now))
               = (k', fired0, raised)"
      and fired: "fired = p # fired0"
      by (auto split: prod.splits)
    from p Cons.prems(2) have "(k(name p \<mapsto> key_time now)) (name a) \<noteq> Some (key_time now)"
      by simp
    from Cons.IH [OF rest this pre] fired show ?thesis by simp
  qed
qed

lemma ticks_second_skipped:
  assumes "run_ticks r obs k = (k', fired)"
    and "\<forall>ob \<in> set obs. ob = (now, pre @ a # rest)"
    and "due now a" and "name b = name a" and "b \<noteq> a" and "b \<notin> set pre"
  shows "b \<notin> set fired"
  using assms(1,2)
proof (induction obs arbitrary: k k' fired)
  case Nil
  then show ?case by simp
next
  case (Cons ob later)
  from Cons.prems(2) have ob: "ob = (now, pre @ a # rest)"
    and later: "\<forall>ob \<in> set later. ob = (now, pre @ a # rest)" by simp_all
  obtain k1 f1 r1 where c: "check_and_run_due_jobs r now (pre @ a # rest) k = (k1, f1, r1)"
    by (cases "check_and_run_due_jobs r now (pre @ a # rest) k")
  obtain k2 f2 where t: "run_ticks r later k1 = (k2, f2)"
    by (cases "run_ticks r later k1")
  from Cons.prems(1) ob c t have eq: "fired = f1 @ f2" by simp
  from check_second_skipped [OF c assms(3,4,5,6)] Cons.IH [OF t later] eq
  show ?case by simp
qed

lemmas sched_eval = nightly_def sat_0300_def sat_0301_def key_time_def fmt02d_def digit_def

lemma key_0300: "key_time sat_0300 = ''Sat-03:00''"
  by (simp add: sched_eval)

lemma nightly_three_ticks:
  "run_ticks (\<lambda>_. False) [(sat_0300, [nightly]), (sat_0300, [nightly]), (sat_0300, [nightly])] Map.empty
     = ([''nightly'' \<mapsto> ''Sat-03:00''], [nightly])"
  by (simp add: key_0300) (simp add: nightly_def sat_0300_def)

lemma nightly_next_minute:
  "check_and_run_due_jobs (\<lambda>_. False) sat_0301 [nightly] [''nightly'' \<mapsto> ''Sat-03:00'']
     = ([''nightly'' \<mapsto> ''Sat-03:00''], [], False)"
  by (simp add: nightly_def sat_0301_def)


lemma two_nightly_ticks:
  "run_ticks (\<lambda>_. False) [(sat_0300, [nightly, nightly_logs]), (sat_0300, [nightly, nightly_logs])]
     Map.empty = ([''nightly'' \<mapsto> ''Sat-03:00''], [nightly])"
  by (simp add: key_0300) (simp add: nightly_logs_def nightly_def sat_0300_def)

lemma renamed_both_fire:
  "run_ticks (\<lambda>_. False)
     [(sat_0300, [nightly, nightly_logs\<lparr>name := ''logs''\<rparr>]),
      (sat_0300, [nightly, nightly_logs\<lparr>name := ''logs''\<rparr>])] Map.empty
   = ([''nightly'' \<mapsto> ''Sat-03:00'', ''logs'' \<mapsto> ''Sat-03:00''],
      [nightly, nightly_logs\<lparr>name := ''logs''\<rparr>])"
  by (simp add: key_0300) (simp add: nightly_logs_def nightly_def sat_0300_def)

section \<open>Claims about the scheduler\<close>

text \<open>
  C4. Across any sequence of ticks whose readings of the time give one and the same key,
  whatever the job lists and the stored keys at the start, a job is handed to
  \<^verbatim>\<open>run_job\<close> at most once. Once a tick has fired a job, no later tick of a
  sequence with that key fires it again. A tick whose hour or minute differs from the
  job's configured hour or minute does not fire the job.
\<close>

theorem scheduler_dedup:
  "(run_ticks r obs k = (k', fired) \<and> (\<forall>(now, jobs) \<in> set obs. key_time now = key)
      \<longrightarrow> count_list fired job \<le> 1)
   \<and> (check_and_run_due_jobs r now jobs k = (k1, f1, r1) \<and> job \<in> set f1
        \<and> run_ticks r later k1 = (k2, f2)
        \<and> (\<forall>(now', jobs') \<in> set later. key_time now' = key_time now)
      \<longrightarrow> job \<notin> set f2)
   \<and> (check_and_run_due_jobs r now jobs k = (k1, f1, r1)
        \<and> (hour job \<noteq> int (hh now) \<or> minute job \<noteq> int (mm now))
      \<longrightarrow> job \<notin> set f1)"
proof (intro conjI impI)
  assume "run_ticks r obs k = (k', fired) \<and> (\<forall>(now, jobs) \<in> set obs. key_time now = key)"
  then have "length (named (name job) fired) \<le> 1"
    using ticks_fire_once by blast
  with count_le_named [of fired job] show "count_list fired job \<le> 1" by simp
next
  assume "check_and_run_due_jobs r now jobs k = (k1, f1, r1) \<and> job \<in> set f1
        \<and> run_ticks r later k1 = (k2, f2)
        \<and> (\<forall>(now', jobs') \<in> set later. key_time now' = key_time now)"
  then show "job \<notin> set f2" using later_ticks_skip by blast
next
  assume "check_and_run_due_jobs r now jobs k = (k1, f1, r1)
        \<and> (hour job \<noteq> int (hh now) \<or> minute job \<noteq> int (mm now))"
  then show "job \<notin> set f1" using check_fired_due by blast
qed

theorem scheduler_dedup_witness:
  "run_ticks (\<lambda>_. False) [(sat_0300, [nightly]), (sat_0300, [nightly]), (sat_0300, [nightly])]
       Map.empty = ([''nightly'' \<mapsto> ''Sat-03:00''], [nightly])
   \<and> key_time sat_0300 = ''Sat-03:00''
   \<and> count_list [nightly] nightly \<le> 1
   \<and> check_and_run_due_jobs (\<lambda>_. False) sat_0300 [nightly] Map.empty
        = ([''nightly'' \<mapsto> ''Sat-03:00''], [nightly], False)
   \<and> run_ticks (\<lambda>_. False) [(sat_0300, [nightly]), (sat_0300, [nightly])]
        [''nightly'' \<mapsto> ''Sat-03:00''] = ([''nightly'' \<mapsto> ''Sat-03:00''], [])
   \<and> check_and_run_due_jobs (\<lambda>_. False) sat_0301 [nightly] [''nightly'' \<mapsto> ''Sat-03:00'']
        = ([''nightly'' \<mapsto> ''Sat-03:00''], [], False)
   \<and> minute nightly \<noteq> int (mm sat_0301)"
proof -
  have run: "run_ticks (\<lambda>_. False)
      [(sat_0300, [nightly]), (sat_0300, [nightly]), (sat_0300, [nightly])] Map.empty
      = ([''nightly'' \<mapsto> ''Sat-03:00''], [nightly])"
    by (rule nightly_three_ticks)
  have keys: "\<forall>(now, jobs) \<in> set [(sat_0300, [nightly]), (sat_0300, [nightly]), (sat_0300, [nightly])].
      key_time now = ''Sat-03:00''"
    by (simp add: key_0300)
  have once: "count_list [nightly] nightly \<le> 1"
    using scheduler_dedup [THEN conjunct1, rule_format, OF conjI, OF run keys] .
  have first: "check_and_run_due_jobs (\<lambda>_. False) sat_0300 [nightly] Map.empty
      = ([''nightly'' \<mapsto> ''Sat-03:00''], [nightly], False)"
    by (simp add: key_0300) (simp add: nightly_def sat_0300_def)
  have rest: "run_ticks (\<lambda>_. False) [(sat_0300, [nightly]), (sat_0300, [nightly])]
      [''nightly'' \<mapsto> ''Sat-03:00''] = ([''nightly'' \<mapsto> ''Sat-03:00''], [])"
    by (simp add: key_0300) (simp add: nightly_def sat_0300_def)
  have "minute nightly \<noteq> int (mm sat_0301)"
    by (simp add: nightly_def sat_0301_def)
  with run key_0300 once first rest nightly_next_minute show ?thesis by blast
qed


text \<open>
  C9. The stored keys are indexed by the job name only. When a due job \<open>a\<close> stands in the
  list before every occurrence of another job \<open>b\<close> of the same name, no tick of that
  minute fires \<open>b\<close>, even when \<open>b\<close> is due itself. When moreover the key stored under
  the name is not the current one, \<open>a\<close> is the first job of that name and no earlier
  job makes \<^verbatim>\<open>run_job\<close> raise, then \<open>a\<close> fires exactly once, and the key stored
  under the shared name is the current one afterwards.
\<close>

theorem same_name_only_first_fires:
  assumes run: "run_ticks r ((now, pre @ a # rest) # later) k = (k', fired)"
    and same: "\<forall>ob \<in> set later. ob = (now, pre @ a # rest)"
    and a: "due now a"
    and b: "b \<in> set rest" "name b = name a" "b \<noteq> a" "b \<notin> set pre"
  shows "b \<notin> set fired
    \<and> (k (name a) \<noteq> Some (key_time now) \<and> (\<forall>p \<in> set pre. name p \<noteq> name a \<and> \<not> r p)
        \<longrightarrow> count_list fired a = 1 \<and> k' (name a) = Some (key_time now))"
proof (intro conjI impI)
  from same have all: "\<forall>ob \<in> set ((now, pre @ a # rest) # later). ob = (now, pre @ a # rest)"
    by simp
  from ticks_second_skipped [OF run all a b(2,3,4)] show "b \<notin> set fired" .
  obtain k1 f1 r1 where c: "check_and_run_due_jobs r now (pre @ a # rest) k = (k1, f1, r1)"
    by (cases "check_and_run_due_jobs r now (pre @ a # rest) k")
  obtain k2 f2 where t: "run_ticks r later k1 = (k2, f2)"
    by (cases "run_ticks r later k1")
  from run c t have eq: "k' = k2" "fired = f1 @ f2" by simp_all
  from all have keys: "\<forall>(now', jobs) \<in> set ((now, pre @ a # rest) # later). key_time now' = key_time now"
    by auto
  then have keys': "\<forall>(now', jobs) \<in> set later. key_time now' = key_time now"
    by simp
  assume fresh: "k (name a) \<noteq> Some (key_time now) \<and> (\<forall>p \<in> set pre. name p \<noteq> name a \<and> \<not> r p)"
  then have "a \<in> set f1"
    using check_first_fires [OF c a] by blast
  then have in1: "named (name a) f1 \<noteq> []"
    by (auto simp: named_def filter_empty_conv)
  with check_fires_once [OF c, of "name a"] have "k1 (name a) = Some (key_time now)" by simp
  from ticks_key_kept [OF t keys' this] eq show "k' (name a) = Some (key_time now)" by simp
  from \<open>a \<in> set f1\<close> eq have "count_list fired a \<noteq> 0" by (simp add: count_list_0_iff)
  moreover from ticks_fire_once [OF run keys, of "name a"] count_le_named [of fired a]
  have "count_list fired a \<le> 1" by simp
  ultimately show "count_list fired a = 1" by simp
qed

theorem same_name_only_first_fires_witness:
  "run_ticks (\<lambda>_. False) [(sat_0300, [nightly, nightly_logs]), (sat_0300, [nightly, nightly_logs])]
     Map.empty = ([''nightly'' \<mapsto> ''Sat-03:00''], [nightly])
   \<and> due sat_0300 nightly \<and> due sat_0300 nightly_logs
   \<and> name nightly_logs = name nightly \<and> nightly_logs \<noteq> nightly
   \<and> nightly_logs \<notin> set [nightly] \<and> count_list [nightly] nightly = 1"
proof -
  have run: "run_ticks (\<lambda>_. False)
      ((sat_0300, [] @ nightly # [nightly_logs]) # [(sat_0300, [nightly, nightly_logs])]) Map.empty
      = ([''nightly'' \<mapsto> ''Sat-03:00''], [nightly])"
    using two_nightly_ticks by simp
  have same: "\<forall>ob \<in> set [(sat_0300, [nightly, nightly_logs])]. ob = (sat_0300, [] @ nightly # [nightly_logs])"
    by simp
  have a: "due sat_0300 nightly" and b: "due sat_0300 nightly_logs"
    by (simp_all add: due_def nightly_logs_def nightly_def sat_0300_def)
  have n: "name nightly_logs = name nightly" and d: "nightly_logs \<noteq> nightly"
    by (simp_all add: nightly_logs_def nightly_def)
  have m: "nightly_logs \<in> set [nightly_logs]" "nightly_logs \<notin> set []" by simp_all
  have fresh: "Map.empty (name nightly) \<noteq> Some (key_time sat_0300)
      \<and> (\<forall>p \<in> set []. name p \<noteq> name nightly \<and> \<not> (\<lambda>_. False) p)" by simp
  from same_name_only_first_fires [OF run same a m(1) n d m(2)] fresh
  have "nightly_logs \<notin> set [nightly] \<and> count_list [nightly] nightly = 1" by blast
  with two_nightly_ticks a b n d show ?thesis by blast
qed

section \<open>Facts about snapshot retention\<close>

lemma path_name_child [simp]: "path_name (child p n) = n"
  by (simp add: path_name_def child_def)

lemma insort_key_map:
  "insort_key f (g x) (map g xs) = map g (insort_key (\<lambda>a. f (g a)) x xs)"
  by (induction xs) auto

lemma sort_key_map_map: "sort_key f (map g xs) = map g (sort_key (\<lambda>a. f (g a)) xs)"
  by (induction xs) (auto simp: insort_key_map)

lemma sort_reverse_children:
  "sort_reverse path_name (map (child p) ns) = map (child p) (rev (sort (rev ns)))"
proof -
  have "sort_key path_name (map (child p) (rev ns)) = map (child p) (sort (rev ns))"
    by (simp add: sort_key_map_map)
  then show ?thesis
    by (simp add: sort_reverse_def rev_map)
qed

lemma sort_set_unique:
  assumes "distinct xs" "distinct ys" "set xs = set ys"
  shows "sort xs = sort (ys :: 'a::linorder list)"
  using assms by (intro sorted_distinct_set_unique) simp_all

lemma attempted_remove: "attempted (concat (map (remove_snapshot fs) ds)) = map path_name ds"
  by (induction ds) (auto simp: attempted_def remove_snapshot_def)

lemma removed_remove:
  "removed (concat (map (remove_snapshot fs) ds))
     = map path_name (filter (\<lambda>d. \<not> fs_rmtree_fails fs d) ds)"
  by (induction ds) (auto simp: removed_def remove_snapshot_def)

lemma cleanup_snapshots_eq:
  assumes "fs_exists fs job_dir" "fs_iterdir fs job_dir = Inr entries" "0 \<le> keep"
  shows "cleanup_snapshots fs job_dir keep =
    Inr (concat (map (remove_snapshot fs)
      (map (child job_dir) (drop (nat keep) (rev (sort (rev (subdirs entries))))))))"
proof -
  have "slice_from keep (sort_reverse path_name (map (child job_dir) (subdirs entries)))
      = map (child job_dir) (drop (nat keep) (rev (sort (rev (subdirs entries)))))"
    using assms(3) by (simp add: slice_from_def sort_reverse_children drop_map)
  with assms(1,2) show ?thesis
    by (simp add: cleanup_snapshots_def Let_def subdirs_def del: map_map)
qed

lemma desc_split:
  fixes ns :: "'a::linorder list"
  assumes "distinct ns"
  defines "s \<equiv> rev (sort (rev ns))"
  shows "set (drop n s) \<subseteq> set ns"
    and "set ns - set (drop n s) = set (take n s)"
    and "\<forall>k \<in> set (take n s). \<forall>d \<in> set (drop n s). d < k"
proof -
  have set_s: "set s = set ns" and dist: "distinct s" and sorted: "sorted (rev s)"
    using assms by (simp_all add: s_def)
  have split: "s = take n s @ drop n s" by simp
  from set_s show "set (drop n s) \<subseteq> set ns" using set_drop_subset by fastforce
  from dist split have disj: "set (take n s) \<inter> set (drop n s) = {}"
    by (metis distinct_append)
  from split have "set s = set (take n s) \<union> set (drop n s)" by (metis set_append)
  with disj set_s show "set ns - set (drop n s) = set (take n s)" by auto
  from sorted split have "sorted (rev (drop n s) @ rev (take n s))"
    by (metis rev_append)
  then have "\<forall>d \<in> set (drop n s). \<forall>k \<in> set (take n s). d \<le> k"
    by (auto simp: sorted_append)
  with disj show "\<forall>k \<in> set (take n s). \<forall>d \<in> set (drop n s). d < k"
    by (metis disjoint_iff order_le_imp_less_or_eq)
qed

lemma desc_card:
  fixes ns :: "'a::linorder list"
  assumes "distinct ns" "n \<le> length ns"
  shows "card (set (take n (rev (sort (rev ns))))) = n"
proof -
  have "distinct (take n (rev (sort (rev ns))))" using assms by simp
  then have "card (set (take n (rev (sort (rev ns))))) = length (take n (rev (sort (rev ns))))"
    by (rule distinct_card)
  with assms show ?thesis by simp
qed

lemma distinct_subdirs: "distinct (map fst entries) \<Longrightarrow> distinct (subdirs entries)"
  by (simp add: subdirs_def distinct_map_filter)

lemma set_subdirs_cong: "set entries' = set entries \<Longrightarrow> set (subdirs entries') = set (subdirs entries)"
  by (auto simp: subdirs_def)

lemma names_of_children: "map path_name (map (child p) ns) = ns"
  by (induction ns) simp_all

lemma names_of_filtered_children:
  "map path_name (filter P (map (child p) ns)) = filter (\<lambda>n. P (child p n)) ns"
  by (induction ns) simp_all

lemma snap_cleanup:
  "cleanup_snapshots snap_fs snap_dir 2 =
     Inr [Rmtree (child snap_dir ''20240102_030000'') True,
          Info ''Cleanup: removed old snapshot /srv/backups/main/nightly/20240102_030000'',
          Rmtree (child snap_dir ''20240101_030000'') False,
          Warn ''Cleanup: could not remove /srv/backups/main/nightly/20240101_030000'']"
  by code_simp


section \<open>Claim about snapshot retention\<close>

text \<open>
  C5. If the job directory does not exist, \<^verbatim>\<open>_cleanup_snapshots\<close> does nothing and raises
  nothing. If it exists, holds \<open>M\<close> subdirectories (entry names are distinct) and
  \<open>0 \<le> keep < M\<close>, then \<^verbatim>\<open>rmtree\<close> is called exactly on the subdirectories outside the
  \<open>keep\<close> greatest names: the names not attempted are \<open>keep\<close> many and each is greater
  than every attempted one. Every attempted snapshot whose removal does not fail is
  removed, whatever fails for the others, and the result is the same for every order in
  which the directory lists its entries.
\<close>

theorem cleanup_snapshots_keeps_latest:
  "(\<not> fs_exists fs job_dir \<longrightarrow> cleanup_snapshots fs job_dir keep = Inr [])
   \<and> (fs_exists fs job_dir \<and> fs_iterdir fs job_dir = Inr entries \<and> distinct (map fst entries)
        \<and> 0 \<le> keep \<and> keep < int (length (subdirs entries)) \<longrightarrow>
      (\<exists>evs. cleanup_snapshots fs job_dir keep = Inr evs
         \<and> set (attempted evs) \<subseteq> set (subdirs entries)
         \<and> card (set (subdirs entries) - set (attempted evs)) = nat keep
         \<and> (\<forall>k \<in> set (subdirs entries) - set (attempted evs). \<forall>d \<in> set (attempted evs). d < k)
         \<and> removed evs = filter (\<lambda>n. \<not> fs_rmtree_fails fs (child job_dir n)) (attempted evs)
         \<and> (\<forall>entries'. set entries' = set entries \<and> distinct (map fst entries') \<longrightarrow>
              cleanup_snapshots (fs\<lparr>fs_iterdir := (fs_iterdir fs)(job_dir := Inr entries')\<rparr>)
                job_dir keep = Inr evs)))"
proof (intro conjI impI)
  assume "\<not> fs_exists fs job_dir"
  then show "cleanup_snapshots fs job_dir keep = Inr []"
    by (simp add: cleanup_snapshots_def)
next
  assume h: "fs_exists fs job_dir \<and> fs_iterdir fs job_dir = Inr entries \<and> distinct (map fst entries)
        \<and> 0 \<le> keep \<and> keep < int (length (subdirs entries))"
  define s where "s = rev (sort (rev (subdirs entries)))"
  define cand where "cand = drop (nat keep) s"
  define evs where "evs = concat (map (remove_snapshot fs) (map (child job_dir) cand))"
  from h have dist: "distinct (subdirs entries)" by (simp add: distinct_subdirs)
  from h have run: "cleanup_snapshots fs job_dir keep = Inr evs"
    by (simp add: cleanup_snapshots_eq evs_def cand_def s_def)
  have att: "attempted evs = cand"
    by (simp add: evs_def attempted_remove names_of_children del: map_map)
  have rem: "removed evs = filter (\<lambda>n. \<not> fs_rmtree_fails fs (child job_dir n)) cand"
    by (simp add: evs_def removed_remove names_of_filtered_children del: map_map)
  note split = desc_split [OF dist, of "nat keep", folded s_def cand_def]
  from h have "nat keep \<le> length (subdirs entries)" by linarith
  from desc_card [OF dist this] have card: "card (set (take (nat keep) s)) = nat keep"
    by (simp add: s_def)
  have perm: "cleanup_snapshots (fs\<lparr>fs_iterdir := (fs_iterdir fs)(job_dir := Inr entries')\<rparr>)
                job_dir keep = Inr evs"
    if p: "set entries' = set entries \<and> distinct (map fst entries')" for entries'
  proof -
    from p have d': "distinct (subdirs entries')" by (simp add: distinct_subdirs)
    from p have "set (subdirs entries') = set (subdirs entries)"
      by (intro set_subdirs_cong) simp
    with d' dist have srt: "sort (rev (subdirs entries')) = sort (rev (subdirs entries))"
      by (intro sort_set_unique) simp_all
    let ?fs = "fs\<lparr>fs_iterdir := (fs_iterdir fs)(job_dir := Inr entries')\<rparr>"
    from h have e: "fs_exists ?fs job_dir" and i: "fs_iterdir ?fs job_dir = Inr entries'"
      and k: "0 \<le> keep" by simp_all
    have same: "remove_snapshot ?fs = remove_snapshot fs"
      by (simp add: fun_eq_iff remove_snapshot_def)
    show ?thesis
      unfolding cleanup_snapshots_eq [OF e i k] srt same evs_def cand_def s_def ..
  qed
  from run att rem split card perm
  show "\<exists>evs. cleanup_snapshots fs job_dir keep = Inr evs
         \<and> set (attempted evs) \<subseteq> set (subdirs entries)
         \<and> card (set (subdirs entries) - set (attempted evs)) = nat keep
         \<and> (\<forall>k \<in> set (subdirs entries) - set (attempted evs). \<forall>d \<in> set (attempted evs). d < k)
         \<and> removed evs = filter (\<lambda>n. \<not> fs_rmtree_fails fs (child job_dir n)) (attempted evs)
         \<and> (\<forall>entries'. set entries' = set entries \<and> distinct (map fst entries') \<longrightarrow>
              cleanup_snapshots (fs\<lparr>fs_iterdir := (fs_iterdir fs)(job_dir := Inr entries')\<rparr>)
                job_dir keep = Inr evs)"
    by (intro exI [of _ evs]) simp
qed

theorem cleanup_snapshots_keeps_latest_witness:
  "fs_exists snap_fs snap_dir \<and> fs_iterdir snap_fs snap_dir = Inr snap_entries
   \<and> distinct (map fst snap_entries) \<and> (0::int) \<le> 2 \<and> 2 < int (length (subdirs snap_entries))
   \<and> (\<exists>evs. cleanup_snapshots snap_fs snap_dir 2 = Inr evs
         \<and> set (attempted evs) \<subseteq> set (subdirs snap_entries)
         \<and> card (set (subdirs snap_entries) - set (attempted evs)) = nat 2
         \<and> (\<forall>k \<in> set (subdirs snap_entries) - set (attempted evs). \<forall>d \<in> set (attempted evs). d < k)
         \<and> removed evs = filter (\<lambda>n. \<not> fs_rmtree_fails snap_fs (child snap_dir n)) (attempted evs))
   \<and> \<not> fs_exists snap_fs (Path True [''nowhere''])
   \<and> cleanup_snapshots snap_fs (Path True [''nowhere'']) 2 = Inr []"
proof -
  have h: "fs_exists snap_fs snap_dir \<and> fs_iterdir snap_fs snap_dir = Inr snap_entries
      \<and> distinct (map fst snap_entries) \<and> (0::int) \<le> 2 \<and> 2 < int (length (subdirs snap_entries))"
    by (simp add: snap_fs_def snap_entries_def subdirs_def)
  have n: "\<not> fs_exists snap_fs (Path True [''nowhere''])"
    by (simp add: snap_fs_def snap_dir_def)
  from h n cleanup_snapshots_keeps_latest [of snap_fs snap_dir 2 snap_entries]
    cleanup_snapshots_keeps_latest [of snap_fs "Path True [''nowhere'']" 2 snap_entries]
  show ?thesis by blast
qed

section \<open>Facts about local path resolution\<close>

lemma replace1_same: "replace1 c [c] s = s"
  by (induction s) (auto simp: replace1_def)

lemma split_on_nonempty: "split_on c s \<noteq> []"
  by (induction s) (auto split: list.splits)

lemma strict_prefix_take_iff: "strict_prefix xs ys \<longleftrightarrow> (\<exists>n < length ys. xs = take n ys)"
proof
  assume "strict_prefix xs ys"
  then obtain z zs where "ys = xs @ z # zs"
    by (auto simp: strict_prefix_def prefix_def) (metis append_Nil2 list.exhaust)
  then have "length xs < length ys" "xs = take (length xs) ys" by simp_all
  then show "\<exists>n < length ys. xs = take n ys" by blast
next
  assume "\<exists>n < length ys. xs = take n ys"
  then obtain n where n: "n < length ys" "xs = take n ys" by blast
  then have "prefix xs ys" by (simp add: take_is_prefix)
  moreover from n have "length xs < length ys" by simp
  ultimately show "strict_prefix xs ys" by (auto simp: strict_prefix_def)
qed

lemma in_parents_iff:
  "rr \<in> set (parents out) \<longleftrightarrow> absolute rr = absolute out \<and> strict_prefix (parts rr) (parts out)"
  by (cases rr) (auto simp: parents_def strict_prefix_take_iff)

lemma within_iff:
  "out = rr \<or> rr \<in> set (parents out) \<longleftrightarrow> absolute out = absolute rr \<and> prefix (parts rr) (parts out)"
  by (cases rr; cases out) (auto simp: in_parents_iff strict_prefix_def)

lemma safe_join_local_escape:
  assumes "\<not> (absolute (fs_resolve fs (joinpath root_dir (lstrip1 CHR ''/'' rel)))
               = absolute (fs_resolve fs root_dir)
            \<and> prefix (parts (fs_resolve fs root_dir))
                 (parts (fs_resolve fs (joinpath root_dir (lstrip1 CHR ''/'' rel)))))"
  shows "safe_join_local fs root_dir rel = Inl (ValueError (''Unsafe path: '' @ lstrip1 CHR ''/'' rel))"
  using assms within_iff [of "fs_resolve fs (joinpath root_dir (lstrip1 CHR ''/'' rel))"
      "fs_resolve fs root_dir"]
  by (auto simp: safe_join_local_def Let_def replace1_same)

lemma safe_join_local_within:
  assumes "absolute (fs_resolve fs (joinpath root_dir (lstrip1 CHR ''/'' rel)))
               = absolute (fs_resolve fs root_dir)
            \<and> prefix (parts (fs_resolve fs root_dir))
                 (parts (fs_resolve fs (joinpath root_dir (lstrip1 CHR ''/'' rel))))"
  shows "safe_join_local fs root_dir rel = Inr (fs_resolve fs (joinpath root_dir (lstrip1 CHR ''/'' rel)))"
  using assms within_iff [of "fs_resolve fs (joinpath root_dir (lstrip1 CHR ''/'' rel))"
      "fs_resolve fs root_dir"]
  by (auto simp: safe_join_local_def Let_def replace1_same)

lemma transfer_item_unsafe:
  "safe_join_local fs local_root rel_child = Inl e \<Longrightarrow>
     transfer_item label srv fs remote_child local_root job rel_child = ([], Raised e)"
  by (simp add: transfer_item_def)

lemma escape_example:
  "safe_join_local snap_fs backups ''../../etc/passwd'' = Inl (ValueError ''Unsafe path: ../../etc/passwd'')"
  by code_simp

lemma inside_example:
  "safe_join_local snap_fs backups ''a/b/c.txt'' = Inr (Path True [''srv'', ''backups'', ''a'', ''b'', ''c.txt''])"
  by code_simp

lemma root_example:
  "safe_join_local snap_fs (Path True []) ''../../etc/passwd'' = Inr (Path True [''etc'', ''passwd''])"
  by code_simp

lemma resolve_examples:
  "fs_resolve snap_fs backups = backups"
  "fs_resolve snap_fs (joinpath backups (lstrip1 CHR ''/'' ''../../etc/passwd''))
     = Path True [''etc'', ''passwd'']"
  "fs_resolve snap_fs (joinpath backups (lstrip1 CHR ''/'' ''a/b/c.txt''))
     = Path True [''srv'', ''backups'', ''a'', ''b'', ''c.txt'']"
  by (simp_all add: snap_fs_def backups_def joinpath_def parse_path_def posix_resolve_def
      lstrip1_def startswith_def)

section \<open>Claim about local path resolution\<close>

text \<open>
  C2. Whatever \<^verbatim>\<open>resolve\<close> answers: when the resolved join of the root and the relative
  path (its leading slashes stripped) is neither the resolved root nor below it,
  \<^verbatim>\<open>safe_join_local\<close> raises the error \<^verbatim>\<open>Unsafe path\<close>, and the transfer of that item
  ends with this error before anything is done: no download is started and no log line
  is written. When the resolved join is the resolved root or below it,
  \<^verbatim>\<open>safe_join_local\<close> returns it.
\<close>

theorem safe_join_local_guard:
  "(\<not> (absolute (fs_resolve fs (joinpath root_dir (lstrip1 CHR ''/'' rel)))
           = absolute (fs_resolve fs root_dir)
        \<and> prefix (parts (fs_resolve fs root_dir))
             (parts (fs_resolve fs (joinpath root_dir (lstrip1 CHR ''/'' rel)))))
      \<longrightarrow> safe_join_local fs root_dir rel
            = Inl (ValueError (''Unsafe path: '' @ lstrip1 CHR ''/'' rel))
        \<and> transfer_item label srv fs remote_child root_dir job rel
            = ([], Raised (ValueError (''Unsafe path: '' @ lstrip1 CHR ''/'' rel))))
   \<and> (absolute (fs_resolve fs (joinpath root_dir (lstrip1 CHR ''/'' rel)))
           = absolute (fs_resolve fs root_dir)
        \<and> prefix (parts (fs_resolve fs root_dir))
             (parts (fs_resolve fs (joinpath root_dir (lstrip1 CHR ''/'' rel))))
      \<longrightarrow> safe_join_local fs root_dir rel
            = Inr (fs_resolve fs (joinpath root_dir (lstrip1 CHR ''/'' rel))))"
  using safe_join_local_escape [of fs root_dir rel] safe_join_local_within [of fs root_dir rel]
    transfer_item_unsafe [of fs root_dir rel _ label srv remote_child job]
  by blast

theorem safe_join_local_guard_witness:
  "\<not> (absolute (fs_resolve snap_fs (joinpath backups (lstrip1 CHR ''/'' ''../../etc/passwd'')))
          = absolute (fs_resolve snap_fs backups)
       \<and> prefix (parts (fs_resolve snap_fs backups))
            (parts (fs_resolve snap_fs (joinpath backups (lstrip1 CHR ''/'' ''../../etc/passwd'')))))
   \<and> safe_join_local snap_fs backups ''../../etc/passwd''
        = Inl (ValueError ''Unsafe path: ../../etc/passwd'')
   \<and> transfer_item ''Downloaded: '' data_server snap_fs ''/data/../../etc/passwd'' backups nightly
        ''../../etc/passwd'' = ([], Raised (ValueError ''Unsafe path: ../../etc/passwd''))
   \<and> absolute (fs_resolve snap_fs (joinpath backups (lstrip1 CHR ''/'' ''a/b/c.txt'')))
          = absolute (fs_resolve snap_fs backups)
   \<and> prefix (parts (fs_resolve snap_fs backups))
        (parts (fs_resolve snap_fs (joinpath backups (lstrip1 CHR ''/'' ''a/b/c.txt''))))
   \<and> safe_join_local snap_fs backups ''a/b/c.txt''
        = Inr (Path True [''srv'', ''backups'', ''a'', ''b'', ''c.txt''])"
proof -
  have out: "\<not> (absolute (fs_resolve snap_fs (joinpath backups (lstrip1 CHR ''/'' ''../../etc/passwd'')))
          = absolute (fs_resolve snap_fs backups)
       \<and> prefix (parts (fs_resolve snap_fs backups))
            (parts (fs_resolve snap_fs (joinpath backups (lstrip1 CHR ''/'' ''../../etc/passwd'')))))"
    by (simp add: resolve_examples) (simp add: backups_def)
  have inside: "absolute (fs_resolve snap_fs (joinpath backups (lstrip1 CHR ''/'' ''a/b/c.txt'')))
          = absolute (fs_resolve snap_fs backups)
     \<and> prefix (parts (fs_resolve snap_fs backups))
        (parts (fs_resolve snap_fs (joinpath backups (lstrip1 CHR ''/'' ''a/b/c.txt''))))"
    by (simp add: resolve_examples) (simp add: backups_def)
  have msg: "''Unsafe path: '' @ lstrip1 CHR ''/'' ''../../etc/passwd'' = ''Unsafe path: ../../etc/passwd''"
    by (simp add: lstrip1_def)
  from out inside
    safe_join_local_guard [of snap_fs backups "''../../etc/passwd''" "''Downloaded: ''" data_server
      "''/data/../../etc/passwd''" nightly]
    safe_join_local_guard [of snap_fs backups "''a/b/c.txt''"]
  show ?thesis
    unfolding msg resolve_examples by blast
qed

section \<open>Facts about the tree walk and a run\<close>

lemma fst_seq: "fst (seq a b) = (if snd a = Finished then fst a @ fst b else fst a)"
  by (cases a; cases "snd a") (auto simp: seq_def)

lemma snd_seq: "snd (seq a b) = (if snd a = Finished then snd b else snd a)"
  by (cases a; cases "snd a") (auto simp: seq_def)

lemma seq_Finished_iff:
  "seq a b = (acts, Finished) \<longleftrightarrow>
     (\<exists>xs ys. a = (xs, Finished) \<and> b = (ys, Finished) \<and> acts = xs @ ys)"
  by (cases a; cases "snd a"; cases b) (auto simp: seq_def)

lemma filter_seq_empty:
  "filter P (fst a) = [] \<Longrightarrow> filter P (fst b) = [] \<Longrightarrow> filter P (fst (seq a b)) = []"
  by (simp add: fst_seq)

lemma transfer_item_dry:
  "dry_run job \<Longrightarrow> filter is_download (fst (transfer_item label srv fs rc lr job rel)) = []"
  by (simp add: transfer_item_def is_download_def split: sum.splits)

lemma download_dir_dry:
  assumes "dry_run job"
  shows "filter is_download (fst (download_dir n srv fs rd lr job rp)) = []"
    and "filter is_download (fst (download_items n srv fs rd lr job rp items)) = []"
  using assms
proof (induction n srv fs rd lr job rp and n srv fs rd lr job rp items
    rule: download_dir_download_items.induct)
  case (1 srv fs remote_dir local_root job rel_prefix)
  then show ?case by simp
next
  case (2 n srv fs remote_dir local_root job rel_prefix)
  then show ?case by (simp add: fst_seq is_download_def)
next
  case (3 n srv fs remote_dir local_root job rel_prefix)
  then show ?case by simp
next
  case (4 n srv fs remote_dir local_root job rel_prefix nm items)
  then show ?case
    by (auto simp: Let_def transfer_item_dry intro!: filter_seq_empty split: sum.splits bool.splits)
qed


lemma remove_snapshot_no_download: "filter is_download (remove_snapshot fs d) = []"
  by (simp add: remove_snapshot_def is_download_def)

lemma concat_remove_no_download:
  "filter is_download (concat (map (remove_snapshot fs) ds)) = []"
  by (induction ds) (simp_all add: remove_snapshot_no_download)

lemma cleanup_snapshots_no_download:
  "cleanup_snapshots fs d k = Inr acts \<Longrightarrow> filter is_download acts = []"
  by (auto simp: cleanup_snapshots_def Let_def concat_remove_no_download
      split: if_splits sum.splits)

lemma cleanup_no_download: "filter is_download (fst (cleanup w p job)) = []"
  by (auto simp: cleanup_def is_download_def cleanup_snapshots_no_download split: sum.splits)

lemma transfer_dry:
  "dry_run job \<Longrightarrow> filter is_download (fst (transfer fuel w p job)) = []"
  by (auto simp: transfer_def Let_def download_dir_dry transfer_item_dry
      split: sum.splits bool.splits)

lemma attempt_dry:
  assumes "dry_run job"
  shows "filter is_download (fst (attempt fuel w p job)) = []"
  unfolding attempt_def
  by (intro filter_seq_empty transfer_dry [OF assms] cleanup_no_download)
     (simp_all add: is_download_def split: option.splits)

lemma run_job_dry:
  assumes "dry_run job"
  shows "filter is_download (fst (run_job fuel w job)) = []"
proof (cases "get_profile (profiles w) (profile job)")
  case None
  then show ?thesis by (simp add: run_job_def is_download_def)
next
  case (Some p)
  show ?thesis
  proof (cases "fs_mkdir (files w) (local_base_of w job)")
    case mk: (Some e)
    with Some show ?thesis by (simp add: run_job_def is_download_def)
  next
    case None
    obtain acts st where a: "attempt fuel w p job = (acts, st)"
      by (cases "attempt fuel w p job")
    with attempt_dry [OF assms, of fuel w p] have "filter is_download acts = []" by simp
    with Some None a show ?thesis
      by (cases st) (simp_all add: run_job_def Let_def is_download_def)
  qed
qed

lemma transfer_item_dry_of_real:
  assumes "\<not> dry_run job"
    and "transfer_item label srv fs rc lr job rel = (acts, Finished)"
  shows "transfer_item label srv fs rc lr (job\<lparr>dry_run := True\<rparr>) rel
    = (filter (\<lambda>a. \<not> is_download a) acts, Finished)"
  using assms
  by (auto simp: transfer_item_def is_download_def split: sum.splits option.splits)

lemma seq_FinishedI: "a = (xs, Finished) \<Longrightarrow> b = (ys, Finished) \<Longrightarrow> seq a b = (xs @ ys, Finished)"
  by (simp add: seq_def)

lemma download_dir_dry_of_real:
  assumes "\<not> dry_run job"
  shows "download_dir n srv fs rd lr job rp = (acts, Finished) \<Longrightarrow>
      download_dir n srv fs rd lr (job\<lparr>dry_run := True\<rparr>) rp
        = (filter (\<lambda>a. \<not> is_download a) acts, Finished)"
    and "download_items n srv fs rd lr job rp items = (acts, Finished) \<Longrightarrow>
      download_items n srv fs rd lr (job\<lparr>dry_run := True\<rparr>) rp items
        = (filter (\<lambda>a. \<not> is_download a) acts, Finished)"
  using assms
proof (induction n srv fs rd lr job rp and n srv fs rd lr job rp items arbitrary: acts and acts
    rule: download_dir_download_items.induct)
  case (1 srv fs remote_dir local_root job rel_prefix)
  then show ?case by simp
next
  case (2 n srv fs remote_dir local_root job rel_prefix)
  from "2.prems"(1) obtain ys where
    items: "download_items n srv fs remote_dir local_root job rel_prefix (list_dir srv remote_dir)
              = (ys, Finished)"
    and acts: "acts = [Info (''Entering folder: '' @ remote_dir)] @ ys"
    by (auto simp: seq_Finished_iff)
  from "2.IH" [OF items "2.prems"(2)] acts show ?case
    by (simp add: seq_def is_download_def)
next
  case (3 n srv fs remote_dir local_root job rel_prefix)
  then show ?case by auto
next
  case (4 n srv fs remote_dir local_root job rel_prefix nm items)
  define remote_child where "remote_child = rstrip1 CHR ''/'' remote_dir @ ''/'' @ nm"
  define rel_child where "rel_child = lstrip1 CHR ''/'' (rel_prefix @ ''/'' @ nm)"
  define head where "head j =
      (if include_subdirs j
       then (case is_dir srv remote_child of
               Inl e \<Rightarrow> ([], Raised e)
             | Inr True \<Rightarrow> download_dir n srv fs remote_child local_root j rel_child
             | Inr False \<Rightarrow>
                 transfer_item ''Downloaded: '' srv fs remote_child local_root j rel_child)
       else transfer_item ''Downloaded: '' srv fs remote_child local_root j rel_child)" for j
  have unfold: "download_items n srv fs remote_dir local_root j rel_prefix (nm # items)
      = seq (head j) (download_items n srv fs remote_dir local_root j rel_prefix items)" for j
    unfolding head_def remote_child_def rel_child_def
    by (simp add: Let_def split: sum.splits bool.splits)
  from "4.prems"(1)
  have "seq (head job) (download_items n srv fs remote_dir local_root job rel_prefix items)
      = (acts, Finished)"
    by (simp only: unfold)
  then obtain xs ys where
    h: "head job = (xs, Finished)"
    and t: "download_items n srv fs remote_dir local_root job rel_prefix items = (ys, Finished)"
    and acts: "acts = xs @ ys"
    by (auto simp only: seq_Finished_iff)
  have h': "head (job\<lparr>dry_run := True\<rparr>) = (filter (\<lambda>a. \<not> is_download a) xs, Finished)"
  proof (cases "include_subdirs job")
    case False
    with h "4.prems"(2) show ?thesis
      by (simp add: head_def transfer_item_dry_of_real)
  next
    case True
    show ?thesis
    proof (cases "is_dir srv remote_child")
      case (Inl e)
      with True h show ?thesis by (simp add: head_def)
    next
      case (Inr b)
      show ?thesis
      proof (cases b)
        case isdir: True
        with True Inr h have "download_dir n srv fs remote_child local_root job rel_child = (xs, Finished)"
          by (simp add: head_def)
        moreover from isdir have "b = True" by simp
        ultimately have "download_dir n srv fs remote_child local_root (job\<lparr>dry_run := True\<rparr>) rel_child
            = (filter (\<lambda>a. \<not> is_download a) xs, Finished)"
          using "4.IH"(1) [OF remote_child_def rel_child_def True Inr] "4.prems"(2) by blast
        with
          True Inr isdir show ?thesis by (simp add: head_def)
      next
        case False
        with True Inr h "4.prems"(2) show ?thesis
          by (simp add: head_def transfer_item_dry_of_real)
      qed
    qed
  qed
  from "4.IH"(2) [OF remote_child_def rel_child_def t "4.prems"(2)]
  have t': "download_items n srv fs remote_dir local_root (job\<lparr>dry_run := True\<rparr>) rel_prefix items
      = (filter (\<lambda>a. \<not> is_download a) ys, Finished)" .
  from h' t' acts show ?case
    by (simp only: unfold seq_FinishedI filter_append)
qed

lemma dry_run_same_places [simp]:
  "remote_full_of p (job\<lparr>dry_run := d\<rparr>) = remote_full_of p job"
  "dest_root_of w p (job\<lparr>dry_run := d\<rparr>) = dest_root_of w p job"
  by (simp_all add: remote_full_of_def dest_root_of_def job_dir_of_def local_base_of_def)

lemma transfer_dry_of_real:
  assumes "\<not> dry_run job" and "transfer fuel w p job = (acts, Finished)"
  shows "transfer fuel w p (job\<lparr>dry_run := True\<rparr>) = (filter (\<lambda>a. \<not> is_download a) acts, Finished)"
proof (cases "is_dir (server w p) (remote_full_of p job)")
  case (Inl e)
  with assms(2) show ?thesis by (simp add: transfer_def Let_def)
next
  case (Inr b)
  show ?thesis
  proof (cases b)
    case True
    with Inr assms(2) have "download_dir fuel (server w p) (files w) (remote_full_of p job)
        (dest_root_of w p job) job [] = (acts, Finished)"
      by (simp add: transfer_def Let_def)
    from download_dir_dry_of_real(1) [OF assms(1) this] True Inr show ?thesis
      by (simp add: transfer_def Let_def)
  next
    case False
    with Inr assms(2) have "transfer_item ''Downloaded file: '' (server w p) (files w)
        (remote_full_of p job) (dest_root_of w p job) job
        (last (split_on CHR ''/'' (remote_full_of p job))) = (acts, Finished)"
      by (simp add: transfer_def Let_def)
    from transfer_item_dry_of_real [OF assms(1) this] False Inr show ?thesis
      by (simp add: transfer_def Let_def)
  qed
qed

lemma dry_nightly_run:
  "run_job 2 home_world (nightly\<lparr>dry_run := True\<rparr>) =
   ([Mkdir (Path True [''srv'', ''backups'']),
     Info ''JOB: nightly | mode=snapshot | profile=main'',
     Discord Started ''Backup started: nightly (main)'',
     Info ''Remote: /data'',
     Info ''Local : /srv/backups/main/nightly/20240105_030000'',
     Warn ''Dry run enabled: no files will be downloaded.'', Connect,
     Info ''Entering folder: /data'',
     Info ''Downloaded: /data/a.txt -> /srv/backups/main/nightly/20240105_030000/a.txt'',
     Info ''Entering folder: /data/sub'',
     Info ''Downloaded: /data/sub/c.txt -> /srv/backups/main/nightly/20240105_030000/sub/c.txt'',
     Info ''Downloaded: /data/sub/d.txt -> /srv/backups/main/nightly/20240105_030000/sub/d.txt'',
     Info ''Downloaded: /data/sub/e.txt -> /srv/backups/main/nightly/20240105_030000/sub/e.txt'',
     Info ''Downloaded: /data/b.txt -> /srv/backups/main/nightly/20240105_030000/b.txt'',
     CleanupCall (Path True [''srv'', ''backups'', ''main'', ''nightly'']) 10,
     Info ''JOB DONE: nightly'',
     Discord Succeeded ''Backup done: nightly (main)'', Close],
    Finished)"
  by code_simp

lemma mode_same_places [simp]:
  "job_dir_of w p (job\<lparr>mode := m\<rparr>) = job_dir_of w p job"
  by (simp add: job_dir_of_def local_base_of_def)

lemma mode_case_insensitive:
  assumes "lower m = lower (mode job)"
  shows "dest_root_of w p (job\<lparr>mode := m\<rparr>) = dest_root_of w p job"
    and "cleanup w p (job\<lparr>mode := m\<rparr>) = cleanup w p job"
  using assms by (simp_all add: dest_root_of_def cleanup_def split: sum.splits)

lemma path_name_joinpath_MIRROR: "path_name (joinpath p ''MIRROR'') = ''MIRROR''"
  by (simp add: joinpath_def parse_path_def path_name_def startswith_def)

lemma transfer_item_no_cleanup:
  "filter is_cleanup (fst (transfer_item label srv fs rc lr job rel)) = []"
  by (simp add: transfer_item_def is_cleanup_def split: sum.splits option.splits)

lemma download_dir_no_cleanup:
  "filter is_cleanup (fst (download_dir n srv fs rd lr job rp)) = []"
  "filter is_cleanup (fst (download_items n srv fs rd lr job rp items)) = []"
proof (induction n srv fs rd lr job rp and n srv fs rd lr job rp items
    rule: download_dir_download_items.induct)
  case (1 srv fs remote_dir local_root job rel_prefix)
  then show ?case by simp
next
  case (2 n srv fs remote_dir local_root job rel_prefix)
  then show ?case by (simp add: fst_seq is_cleanup_def)
next
  case (3 n srv fs remote_dir local_root job rel_prefix)
  then show ?case by simp
next
  case (4 n srv fs remote_dir local_root job rel_prefix nm items)
  then show ?case
    by (auto simp: Let_def transfer_item_no_cleanup intro!: filter_seq_empty
        split: sum.splits bool.splits)
qed

lemma transfer_no_cleanup: "filter is_cleanup (fst (transfer fuel w p job)) = []"
  by (auto simp: transfer_def Let_def download_dir_no_cleanup transfer_item_no_cleanup
      split: sum.splits bool.splits)

lemma cleanup_mirror: "lower (mode job) \<noteq> ''snapshot'' \<Longrightarrow> cleanup w p job = ([], Finished)"
  by (simp add: cleanup_def)

lemma attempt_mirror:
  assumes "lower (mode job) \<noteq> ''snapshot''"
  shows "filter is_cleanup (fst (attempt fuel w p job)) = []"
  unfolding attempt_def cleanup_mirror [OF assms]
  by (intro filter_seq_empty transfer_no_cleanup)
     (simp_all add: is_cleanup_def split: option.splits)

lemma run_job_mirror:
  assumes "lower (mode job) \<noteq> ''snapshot''"
  shows "filter is_cleanup (fst (run_job fuel w job)) = []"
proof (cases "get_profile (profiles w) (profile job)")
  case None
  then show ?thesis by (simp add: run_job_def is_cleanup_def)
next
  case (Some p)
  show ?thesis
  proof (cases "fs_mkdir (files w) (local_base_of w job)")
    case mk: (Some e)
    with Some show ?thesis by (simp add: run_job_def is_cleanup_def)
  next
    case None
    obtain acts st where a: "attempt fuel w p job = (acts, st)"
      by (cases "attempt fuel w p job")
    with attempt_mirror [OF assms, of fuel w p] have "filter is_cleanup acts = []" by simp
    with Some None a show ?thesis
      by (cases st) (simp_all add: run_job_def Let_def is_cleanup_def)
  qed
qed

lemma lower_examples:
  "lower ''SnapShot'' = ''snapshot''" "lower ''Mirror'' = ''mirror''" "lower ''weekly'' = ''weekly''"
  by (simp_all add: lower_def lower_char_def)

section \<open>Claims about a run\<close>

text \<open>
  C6. In a run of a job with \<^verbatim>\<open>dry_run\<close> set, for every world and every bound on the
  depth of the walk, \<^verbatim>\<open>download_file\<close> is never called, in the single-file branch as in
  the tree walk. The files are logged all the same: when the transfer of the job without
  \<^verbatim>\<open>dry_run\<close> runs to its end, the transfer with \<^verbatim>\<open>dry_run\<close> performs the same
  actions with the calls of \<^verbatim>\<open>download_file\<close> left out, and ends as well.
\<close>

theorem dry_run_never_downloads:
  "(dry_run job \<longrightarrow> filter is_download (fst (run_job fuel w job)) = [])
   \<and> (\<not> dry_run job \<and> transfer fuel w p job = (acts, Finished) \<longrightarrow>
        transfer fuel w p (job\<lparr>dry_run := True\<rparr>)
          = (filter (\<lambda>a. \<not> is_download a) acts, Finished))"
  using run_job_dry [of job fuel w] transfer_dry_of_real [of job fuel w p acts] by blast

theorem dry_run_never_downloads_witness:
  "dry_run (nightly\<lparr>dry_run := True\<rparr>)
   \<and> filter is_download (fst (run_job 2 home_world (nightly\<lparr>dry_run := True\<rparr>))) = []
   \<and> snd (run_job 2 home_world (nightly\<lparr>dry_run := True\<rparr>)) = Finished
   \<and> length (filter is_transfer_log (fst (run_job 2 home_world (nightly\<lparr>dry_run := True\<rparr>)))) = 5
   \<and> \<not> dry_run nightly
   \<and> snd (transfer 2 home_world main_profile nightly) = Finished
   \<and> length (filter is_download (fst (transfer 2 home_world main_profile nightly))) = 5
   \<and> transfer 2 home_world main_profile (nightly\<lparr>dry_run := True\<rparr>)
        = (filter (\<lambda>a. \<not> is_download a) (fst (transfer 2 home_world main_profile nightly)), Finished)"
proof -
  have d: "dry_run (nightly\<lparr>dry_run := True\<rparr>)" and r: "\<not> dry_run nightly"
    by (simp_all add: nightly_def)
  have logs: "snd (run_job 2 home_world (nightly\<lparr>dry_run := True\<rparr>)) = Finished
      \<and> length (filter is_transfer_log (fst (run_job 2 home_world (nightly\<lparr>dry_run := True\<rparr>)))) = 5"
    by (simp add: dry_nightly_run is_transfer_log_def startswith_def)
  have real: "snd (transfer 2 home_world main_profile nightly) = Finished
      \<and> length (filter is_download (fst (transfer 2 home_world main_profile nightly))) = 5"
    by code_simp
  then have t: "transfer 2 home_world main_profile nightly
      = (fst (transfer 2 home_world main_profile nightly), Finished)"
    by (metis prod.collapse)
  from d r logs real t
    dry_run_never_downloads [of "nightly\<lparr>dry_run := True\<rparr>" 2 home_world]
    dry_run_never_downloads [of nightly 2 home_world main_profile
      "fst (transfer 2 home_world main_profile nightly)"]
  show ?thesis by blast
qed

text \<open>
  C10. Two modes with the same lowercase form give the same destination root and the same
  cleanup. A job whose mode in lowercase is not \<^verbatim>\<open>snapshot\<close> writes to the folder
  \<^verbatim>\<open>MIRROR\<close> of its job directory, and its run neither calls
  \<^verbatim>\<open>_cleanup_snapshots\<close> nor removes a directory.
\<close>

theorem mode_other_than_snapshot_is_mirror:
  "(lower m = lower (mode job) \<longrightarrow>
      dest_root_of w p (job\<lparr>mode := m\<rparr>) = dest_root_of w p job
      \<and> cleanup w p (job\<lparr>mode := m\<rparr>) = cleanup w p job)
   \<and> (lower (mode job) \<noteq> ''snapshot'' \<longrightarrow>
        dest_root_of w p job = joinpath (job_dir_of w p job) ''MIRROR''
        \<and> path_name (dest_root_of w p job) = ''MIRROR''
        \<and> cleanup w p job = ([], Finished)
        \<and> filter is_cleanup (fst (run_job fuel w job)) = [])"
  using mode_case_insensitive [of m job w p] cleanup_mirror [of job w p]
    run_job_mirror [of job fuel w] path_name_joinpath_MIRROR [of "job_dir_of w p job"]
  by (simp add: dest_root_of_def)

theorem mode_other_than_snapshot_is_mirror_witness:
  "lower ''SnapShot'' = lower (mode nightly)
   \<and> dest_root_of home_world main_profile (nightly\<lparr>mode := ''SnapShot''\<rparr>) = nightly_dest
   \<and> cleanup home_world main_profile (nightly\<lparr>mode := ''SnapShot''\<rparr>)
        = cleanup home_world main_profile nightly
   \<and> lower (mode (nightly\<lparr>mode := ''weekly''\<rparr>)) \<noteq> ''snapshot''
   \<and> dest_root_of home_world main_profile (nightly\<lparr>mode := ''weekly''\<rparr>)
        = Path True [''srv'', ''backups'', ''main'', ''nightly'', ''MIRROR'']
   \<and> filter is_cleanup (fst (run_job 2 home_world (nightly\<lparr>mode := ''weekly''\<rparr>))) = []"
proof -
  have a: "lower ''SnapShot'' = lower (mode nightly)"
    by (simp add: nightly_def lower_def lower_char_def)
  have b: "lower (mode (nightly\<lparr>mode := ''weekly''\<rparr>)) \<noteq> ''snapshot''"
    by (simp add: lower_def lower_char_def)
  have c: "dest_root_of home_world main_profile nightly = nightly_dest"
    by code_simp
  have d: "joinpath (job_dir_of home_world main_profile (nightly\<lparr>mode := ''weekly''\<rparr>)) ''MIRROR''
      = Path True [''srv'', ''backups'', ''main'', ''nightly'', ''MIRROR'']"
    by code_simp
  from a b mode_other_than_snapshot_is_mirror [of "''SnapShot''" nightly home_world main_profile]
    mode_other_than_snapshot_is_mirror [of _ "nightly\<lparr>mode := ''weekly''\<rparr>" home_world main_profile 2]
  have "dest_root_of home_world main_profile (nightly\<lparr>mode := ''SnapShot''\<rparr>)
        = dest_root_of home_world main_profile nightly
      \<and> cleanup home_world main_profile (nightly\<lparr>mode := ''SnapShot''\<rparr>)
        = cleanup home_world main_profile nightly
      \<and> dest_root_of home_world main_profile (nightly\<lparr>mode := ''weekly''\<rparr>)
        = joinpath (job_dir_of home_world main_profile (nightly\<lparr>mode := ''weekly''\<rparr>)) ''MIRROR''
      \<and> filter is_cleanup (fst (run_job 2 home_world (nightly\<lparr>mode := ''weekly''\<rparr>))) = []"
    by blast
  with a b c d show ?thesis by simp
qed

section \<open>Facts about the listing and the walk without subfolders\<close>

lemma first_seen_filter:
  "first_seen seen xs = filter (\<lambda>x. x \<notin> set seen) (rev (remdups (rev xs)))"
proof (induction xs arbitrary: seen)
  case Nil
  then show ?case by simp
next
  case (Cons x xs)
  have "rev (remdups (rev xs @ [x])) = x # filter (\<lambda>y. y \<noteq> x) (rev (remdups (rev xs)))"
    by (induction xs rule: rev_induct) (auto simp: remdups_append rev_filter)
  with Cons show ?case by (auto intro: filter_cong)
qed


lemma list_dir_primary:
  "srv_mlsd srv p = Inr names \<Longrightarrow>
     list_dir srv p = filter (\<lambda>n. n \<noteq> ''.'' \<and> n \<noteq> ''..'') names"
  by (simp add: list_dir_def)

lemma list_dir_fallback:
  "srv_mlsd srv p = Inl e \<Longrightarrow> srv_nlst srv p = Inr raw \<Longrightarrow>
     list_dir srv p =
       rev (remdups (rev (map (\<lambda>r. last (split_on CHR ''/'' (replace1 backslash ''/'' r))) raw)))"
  by (simp add: list_dir_def first_seen_filter)

lemma list_dir_both_fail:
  "srv_mlsd srv p = Inl e \<Longrightarrow> srv_nlst srv p = Inl e' \<Longrightarrow> list_dir srv p = []"
  by (simp add: list_dir_def)

lemma no_subdirs_every_entry_transferred:
  "\<not> include_subdirs job \<Longrightarrow>
     download_items n srv fs rd lr job rp (nm # items) =
       seq (transfer_item ''Downloaded: '' srv fs (rstrip1 CHR ''/'' rd @ ''/'' @ nm) lr job
              (lstrip1 CHR ''/'' (rp @ ''/'' @ nm)))
           (download_items n srv fs rd lr job rp items)"
  by (simp add: Let_def)

section \<open>Where the program departs from the claims\<close>

text \<open>
  C1. A walk with \<^verbatim>\<open>include_subdirs\<close> unset over a folder that holds the subfolder
  \<^verbatim>\<open>sub\<close>: \<^verbatim>\<open>is_dir\<close> is not asked, \<^verbatim>\<open>download_file\<close> is called on the
  subfolder as on a file, the server refuses, and the exception ends the walk before the
  remaining file \<^verbatim>\<open>b.txt\<close> is reached.
\<close>

theorem subdirectory_retrieved_as_file:
  "include_subdirs (nightly\<lparr>include_subdirs := False\<rparr>) = False
   \<and> is_dir data_server ''/data/sub'' = Inr True
   \<and> download_dir 1 data_server snap_fs ''/data'' nightly_dest
        (nightly\<lparr>include_subdirs := False\<rparr>) [] =
      ([Info ''Entering folder: /data'',
        Download ''/data/a.txt''
          (Path True [''srv'', ''backups'', ''main'', ''nightly'', ''20240105_030000'', ''a.txt'']),
        Info ''Downloaded: /data/a.txt -> /srv/backups/main/nightly/20240105_030000/a.txt'',
        Download ''/data/sub''
          (Path True [''srv'', ''backups'', ''main'', ''nightly'', ''20240105_030000'', ''sub''])],
       Raised (FtpError ''550 Failed to open file.''))"
  by code_simp

text \<open>
  C3. A listing through the fallback: the server does not know \<^verbatim>\<open>MLSD\<close>, its
  \<^verbatim>\<open>NLST\<close> lists the dot entries, and \<^verbatim>\<open>list_dir\<close> returns them, since only the
  primary branch leaves them out.
\<close>

theorem fallback_listing_keeps_dot_entries:
  "srv_mlsd legacy_server ''/data'' = Inl (FtpError ''500 Unknown command.'')
   \<and> list_dir legacy_server ''/data'' = [''.'', ''..'', ''a.txt'', ''b.txt'']"
  by code_simp

end
